theory Spec2Isabelle
  imports Main "HOL-Library.Sublist" "HOL-Library.Multiset"
begin

section \<open>Strings of the source language\<close>

text \<open>
  The program is Python. The strings that its generators build, the templates,
  answers and the concepts placed in them, are modelled as \<^typ>\<open>string\<close>, with the
  methods called on them written out for ASCII letters. The texts that the
  extractor and the statistics read are modelled further below as lists of Unicode
  code points, with the whitespace class of the interpreter in full.
\<close>

definition is_upper :: "char \<Rightarrow> bool" where
  "is_upper c = (let n = (of_char c :: nat) in 65 \<le> n \<and> n \<le> 90)"

definition is_lower :: "char \<Rightarrow> bool" where
  "is_lower c = (let n = (of_char c :: nat) in 97 \<le> n \<and> n \<le> 122)"

definition is_alpha :: "char \<Rightarrow> bool" where
  "is_alpha c = (is_upper c \<or> is_lower c)"

definition is_space :: "char \<Rightarrow> bool" where
  "is_space c = (let n = (of_char c :: nat) in (9 \<le> n \<and> n \<le> 13) \<or> (28 \<le> n \<and> n \<le> 32))"

definition lower_char :: "char \<Rightarrow> char" where
  "lower_char c = (if is_upper c then char_of (of_char c + 32 :: nat) else c)"

definition upper_char :: "char \<Rightarrow> char" where
  "upper_char c = (if is_lower c then char_of (of_char c - 32 :: nat) else c)"

text \<open>
  \<^verbatim>\<open>s.title()\<close>: a letter that follows a letter is lower-cased, every other
  letter is upper-cased. The flag says whether the previous character was a letter.
\<close>

fun title_from :: "bool \<Rightarrow> string \<Rightarrow> string" where
  "title_from prev [] = []"
| "title_from prev (c # cs) =
     (if prev then lower_char c else upper_char c) # title_from (is_alpha c) cs"

definition title :: "string \<Rightarrow> string" where
  "title s = title_from False s"

text \<open>\<^verbatim>\<open>s.strip()\<close>: whitespace removed at both ends.\<close>

definition strip :: "string \<Rightarrow> string" where
  "strip s = rev (dropWhile is_space (rev (dropWhile is_space s)))"

text \<open>
  \<^verbatim>\<open>s.split(sep)\<close> for a one-character separator: the fragments between the
  separators, empty ones included; never the empty list.
\<close>

fun split_frag :: "'a \<Rightarrow> 'a list \<Rightarrow> 'a list \<Rightarrow> 'a list list" where
  "split_frag sep cur [] = [cur]"
| "split_frag sep cur (c # cs) =
     (if c = sep then cur # split_frag sep [] cs else split_frag sep (cur @ [c]) cs)"

definition split_on :: "'a \<Rightarrow> 'a list \<Rightarrow> 'a list list" where
  "split_on sep s = split_frag sep [] s"

text \<open>
  \<^verbatim>\<open>template.format(topic=t)\<close> for a template whose only braces are those of
  the field \<^verbatim>\<open>{topic}\<close>, as in all five templates of the program: the field is
  replaced by the argument, which is not read again.
\<close>

fun format_topic :: "string \<Rightarrow> string \<Rightarrow> string" where
  "format_topic [] t = []"
| "format_topic (c # cs) t =
     (if prefix ''{topic}'' (c # cs) then t @ format_topic (drop 6 cs) t
      else c # format_topic cs t)"

subsection \<open>Errors and the random source\<close>

text \<open>The two exceptions that the library calls of the program can raise.\<close>

datatype py_error = IndexError | ValueError

text \<open>
  The process-wide generator of module \<^verbatim>\<open>random\<close> is a state that every draw
  advances. It is modelled as the sequence of its future draws: \<open>randbelow n\<close>
  returns a number below \<open>n\<close> taken from the head of the sequence and the rest of
  the sequence. Every number below \<open>n\<close> is the result for some sequence.
\<close>

type_synonym rng = "nat \<Rightarrow> nat"

definition randbelow :: "nat \<Rightarrow> rng \<Rightarrow> nat \<times> rng" where
  "randbelow n g = (g 0 mod n, (\<lambda>k. g (Suc k)))"

text \<open>\<^verbatim>\<open>random.choice(seq)\<close> is \<^verbatim>\<open>seq[randbelow(len(seq))]\<close> and raises on an empty sequence.\<close>

definition choice :: "'a list \<Rightarrow> rng \<Rightarrow> py_error + ('a \<times> rng)" where
  "choice xs g =
     (if xs = [] then Inl IndexError
      else (let (j, g') = randbelow (length xs) g in Inr (xs ! j, g')))"

text \<open>
  \<^verbatim>\<open>random.shuffle(x)\<close>:
  \<^verbatim>\<open>for i in reversed(range(1, len(x))): j = randbelow(i + 1); x[i], x[j] = x[j], x[i]\<close>.
\<close>

fun shuffle_from :: "nat \<Rightarrow> 'a list \<Rightarrow> rng \<Rightarrow> 'a list \<times> rng" where
  "shuffle_from 0 xs g = (xs, g)"
| "shuffle_from (Suc i) xs g =
     (let (j, g') = randbelow (Suc i + 1) g
      in shuffle_from i (xs[Suc i := xs ! j, j := xs ! Suc i]) g')"

definition shuffle :: "'a list \<Rightarrow> rng \<Rightarrow> 'a list \<times> rng" where
  "shuffle xs g = shuffle_from (length xs - 1) xs g"

text \<open>\<^verbatim>\<open>xs.index(x)\<close>: the first position of \<open>x\<close>; raises when there is none.\<close>

fun index_from :: "nat \<Rightarrow> 'a \<Rightarrow> 'a list \<Rightarrow> py_error + nat" where
  "index_from k x [] = Inl ValueError"
| "index_from k x (y # ys) = (if y = x then Inr k else index_from (Suc k) x ys)"

definition index :: "'a list \<Rightarrow> 'a \<Rightarrow> py_error + nat" where
  "index xs x = index_from 0 x xs"

text \<open>\<^verbatim>\<open>chr(n)\<close>, as a one-character string.\<close>

definition chr :: "nat \<Rightarrow> string" where
  "chr n = [char_of n]"

text \<open>
  \<^verbatim>\<open>list(set(xs))\<close>: the elements of \<open>xs\<close> without repetition, in the iteration
  order of the set. That order is fixed by the hash values of the strings, which
  the interpreter salts anew in every process, and by the history of the table; the
  program cannot choose it. It is a parameter of the model, a function from the
  list that filled the set to the resulting list, and this is all that is known of
  it.
\<close>

definition py_set_order :: "('a list \<Rightarrow> 'a list) \<Rightarrow> bool" where
  "py_set_order set_list = (\<forall>xs. distinct (set_list xs) \<and> set (set_list xs) = set xs)"

section \<open>Texts as code points\<close>

text \<open>
  A Python \<^verbatim>\<open>str\<close> is a sequence of Unicode code points. The text that the page
  hands to the extractor and to the statistics is any such sequence, so it is
  modelled as a list of code points, each a natural number. \<open>codes\<close> turns an ASCII
  literal into its code points.
\<close>

type_synonym ustr = "nat list"

definition codes :: "string \<Rightarrow> ustr" where
  "codes s = map of_char s"

text \<open>
  The whitespace of the interpreter: the code points for which \<^verbatim>\<open>str.isspace\<close>
  holds. \<^verbatim>\<open>str.split()\<close>, \<^verbatim>\<open>str.strip()\<close> and the class \<^verbatim>\<open>\s\<close> of module \<^verbatim>\<open>re\<close> all
  use this one class: U+0009 to U+000D, U+001C to U+0020, U+0085, U+00A0, U+1680,
  U+2000 to U+200A, U+2028, U+2029, U+202F, U+205F and U+3000.
\<close>

definition is_whitespace :: "nat \<Rightarrow> bool" where
  "is_whitespace c =
     ((9 \<le> c \<and> c \<le> 13) \<or> (28 \<le> c \<and> c \<le> 32) \<or> c = 133 \<or> c = 160 \<or> c = 5760
      \<or> (8192 \<le> c \<and> c \<le> 8202) \<or> c = 8232 \<or> c = 8233 \<or> c = 8239 \<or> c = 8287
      \<or> c = 12288)"

text \<open>\<^verbatim>\<open>s.strip()\<close> on a text.\<close>

definition text_strip :: "ustr \<Rightarrow> ustr" where
  "text_strip s = rev (dropWhile is_whitespace (rev (dropWhile is_whitespace s)))"

text \<open>
  \<^verbatim>\<open>s.split()\<close>: the maximal runs of code points that are not whitespace. The
  first argument is the run read so far.
\<close>

fun split_run :: "ustr \<Rightarrow> ustr \<Rightarrow> ustr list" where
  "split_run cur [] = (if cur = [] then [] else [cur])"
| "split_run cur (c # cs) =
     (if is_whitespace c then (if cur = [] then split_run [] cs else cur # split_run [] cs)
      else split_run (cur @ [c]) cs)"

definition split_ws :: "ustr \<Rightarrow> ustr list" where
  "split_ws s = split_run [] s"

text \<open>
  The rest of what the extractor asks of a text comes from the Unicode tables of
  the interpreter, which are no part of the program: which code points are
  alphanumeric (\<^verbatim>\<open>str.isalnum\<close>, on which the class \<^verbatim>\<open>\w\<close> rests), and what the
  methods \<^verbatim>\<open>lower\<close>, \<^verbatim>\<open>capitalize\<close> and \<^verbatim>\<open>isalpha\<close> return for a string. They are a
  parameter of the model; what is proved holds for every value of it that meets
  the conditions stated with the theorem.
\<close>

record str_tables =
  isalnum :: "nat \<Rightarrow> bool"
  lower :: "ustr \<Rightarrow> ustr"
  capitalize :: "ustr \<Rightarrow> ustr"
  isalpha :: "ustr \<Rightarrow> bool"

text \<open>The class \<^verbatim>\<open>\w\<close>: an alphanumeric code point or the underscore.\<close>

definition is_word :: "str_tables \<Rightarrow> nat \<Rightarrow> bool" where
  "is_word U c = (isalnum U c \<or> c = 95)"

text \<open>
  \<^verbatim>\<open>re.sub(r'[^\w\s]', ' ', text)\<close>: every code point that is neither a word
  character nor whitespace becomes one space.
\<close>

definition sub_punct :: "str_tables \<Rightarrow> ustr \<Rightarrow> ustr" where
  "sub_punct U s = map (\<lambda>c. if \<not> is_word U c \<and> \<not> is_whitespace c then 32 else c) s"

subsection \<open>The tables on ASCII\<close>

text \<open>
  The tables restricted to ASCII, where they are small enough to write out: the
  letters are \<open>A\<close> to \<open>Z\<close> and \<open>a\<close> to \<open>z\<close>, the digits \<open>0\<close> to \<open>9\<close>, and a letter
  changes case by 32. On a text of ASCII code points the interpreter computes what
  these do; they serve to run the model on such texts.
\<close>

definition ascii_upper :: "nat \<Rightarrow> bool" where
  "ascii_upper c = (65 \<le> c \<and> c \<le> 90)"

definition ascii_lower :: "nat \<Rightarrow> bool" where
  "ascii_lower c = (97 \<le> c \<and> c \<le> 122)"

definition ascii_isalnum :: "nat \<Rightarrow> bool" where
  "ascii_isalnum c = (ascii_upper c \<or> ascii_lower c \<or> (48 \<le> c \<and> c \<le> 57))"

definition ascii_to_lower :: "ustr \<Rightarrow> ustr" where
  "ascii_to_lower s = map (\<lambda>c. if ascii_upper c then c + 32 else c) s"

fun ascii_capitalize :: "ustr \<Rightarrow> ustr" where
  "ascii_capitalize [] = []"
| "ascii_capitalize (c # cs) = (if ascii_lower c then c - 32 else c) # ascii_to_lower cs"

definition ascii_isalpha :: "ustr \<Rightarrow> bool" where
  "ascii_isalpha s = (s \<noteq> [] \<and> list_all (\<lambda>c. ascii_upper c \<or> ascii_lower c) s)"

definition ascii_tables :: str_tables where
  "ascii_tables =
     \<lparr>isalnum = ascii_isalnum, lower = ascii_to_lower, capitalize = ascii_capitalize,
      isalpha = ascii_isalpha\<rparr>"

section \<open>The generator\<close>

definition assignment_templates :: "string list" where
  "assignment_templates =
    [''Write a comprehensive essay analyzing {topic}. Discuss its key components, significance, and implications.'',
     ''Compare and contrast different aspects of {topic}. Provide specific examples and explain their relevance.'',
     ''Evaluate the importance of {topic} in its broader context. Support your arguments with evidence and reasoning.'',
     ''Examine the relationship between {topic} and related concepts. How do they influence each other?'',
     ''Create a detailed analysis of {topic}, including its causes, effects, and potential solutions or applications.'']"

definition question_starters :: "string list" where
  "question_starters =
    [''What is the main concept behind'',
     ''Which of the following best describes'',
     ''What are the key characteristics of'',
     ''Which statement is most accurate about'',
     ''What is the primary purpose of'']"

subsection \<open>Quiz questions\<close>

record quiz_question =
  question :: string
  options :: "string list"
  correct_answer :: string

text \<open>The answer texts of the question for a concept, as the loop body builds them.\<close>

definition concept_correct_answer :: "string \<Rightarrow> string" where
  "concept_correct_answer concept = title concept @ '' is a key concept discussed in the text''"

definition concept_wrong_answers :: "nat \<Rightarrow> string \<Rightarrow> string list" where
  "concept_wrong_answers i concept =
     (let wrong_answers =
            [title concept @ '' is not mentioned in the context'',
             title concept @ '' is only briefly referenced'',
             title concept @ '' is contradicted by the main argument'']
      in if i = 1 then
           [title concept @ '' has no practical applications'',
            title concept @ '' is an outdated concept'',
            title concept @ '' is purely theoretical'']
         else if i = 2 then
           [title concept @ '' is the least important aspect'',
            title concept @ '' is a minor detail'',
            title concept @ '' is incorrectly defined'']
         else wrong_answers)"

definition generic_question :: string where
  "generic_question = ''Based on the text, which statement is most accurate?''"

definition generic_correct_answer :: string where
  "generic_correct_answer = ''The text provides valuable information on the topic''"

definition generic_wrong_answers :: "string list" where
  "generic_wrong_answers =
     [''The text contradicts itself frequently'',
      ''The text lacks any coherent structure'',
      ''The text is purely fictional'']"

text \<open>
  The first half of the loop body for index \<open>i\<close>: the question text, the correct
  answer and the wrong answers. Only the concept branch draws from the generator.
\<close>

definition question_parts ::
  "nat \<Rightarrow> string list \<Rightarrow> rng \<Rightarrow> py_error + ((string \<times> string \<times> string list) \<times> rng)" where
  "question_parts i concepts g =
     (if i < length concepts then
        (let concept = concepts ! i in
         case choice question_starters g of
           Inl e \<Rightarrow> Inl e
         | Inr (question_start, g') \<Rightarrow>
             Inr ((question_start @ '' '' @ concept @ ''?'',
                   concept_correct_answer concept,
                   concept_wrong_answers i concept), g'))
      else Inr ((generic_question, generic_correct_answer, generic_wrong_answers), g))"

text \<open>The second half: shuffle the four answers, find the correct one, build the entry.\<close>

definition make_question ::
  "string \<Rightarrow> string \<Rightarrow> string list \<Rightarrow> rng \<Rightarrow> py_error + (quiz_question \<times> rng)" where
  "make_question q correct wrong g =
     (let (all_answers, g') = shuffle ([correct] @ wrong) g in
      case index all_answers correct of
        Inl e \<Rightarrow> Inl e
      | Inr correct_index \<Rightarrow>
          Inr (\<lparr>question = q, options = all_answers,
                correct_answer = chr (65 + correct_index)\<rparr>, g'))"

definition quiz_step ::
  "nat \<Rightarrow> string list \<Rightarrow> rng \<Rightarrow> py_error + (quiz_question \<times> rng)" where
  "quiz_step i concepts g =
     (case question_parts i concepts g of
        Inl e \<Rightarrow> Inl e
      | Inr ((q, correct, wrong), g') \<Rightarrow> make_question q correct wrong g')"

text \<open>The loop over \<^verbatim>\<open>range(3)\<close>, appending to \<open>questions\<close>; an exception ends it.\<close>

fun quiz_loop ::
  "nat list \<Rightarrow> string list \<Rightarrow> quiz_question list \<Rightarrow> rng \<Rightarrow> py_error + (quiz_question list \<times> rng)" where
  "quiz_loop [] concepts questions g = Inr (questions, g)"
| "quiz_loop (i # is) concepts questions g =
     (case quiz_step i concepts g of
        Inl e \<Rightarrow> Inl e
      | Inr (q, g') \<Rightarrow> quiz_loop is concepts (questions @ [q]) g')"

definition generate_quiz_questions ::
  "rng \<Rightarrow> string \<Rightarrow> string list \<Rightarrow> py_error + (quiz_question list \<times> rng)" where
  "generate_quiz_questions g text concepts =
     (let sentences = filter (\<lambda>s. length s > 20) (map strip (split_on CHR ''.'' text))
      in quiz_loop [0, 1, 2] concepts [] g)"

text \<open>The correct answer that the loop body intends for index \<open>i\<close>.\<close>

definition intended_answer :: "nat \<Rightarrow> string list \<Rightarrow> string" where
  "intended_answer i concepts =
     (if i < length concepts then concept_correct_answer (concepts ! i)
      else generic_correct_answer)"

subsection \<open>Key concepts\<close>

text \<open>The tokens of the text, after punctuation has become spaces.\<close>

definition words_of :: "str_tables \<Rightarrow> ustr \<Rightarrow> ustr list" where
  "words_of U text = split_ws (sub_punct U text)"

text \<open>The first loop over the tokens: capitalised tokens longer than 3.\<close>

fun capitalized_loop :: "str_tables \<Rightarrow> ustr list \<Rightarrow> ustr list \<Rightarrow> ustr list" where
  "capitalized_loop U [] concepts = concepts"
| "capitalized_loop U (word # words) concepts =
     capitalized_loop U words
       (if capitalize U word = word \<and> length word > 3 then concepts @ [lower U word]
        else concepts)"

text \<open>
  The dictionary \<open>word_freq\<close> keeps its keys in the order of their first insertion,
  which is the order that \<^verbatim>\<open>items()\<close> and the stable sort see; it is an association
  list. \<open>count_word\<close> is \<^verbatim>\<open>word_freq[w] = word_freq.get(w, 0) + 1\<close>.
\<close>

fun count_word :: "(ustr \<times> nat) list \<Rightarrow> ustr \<Rightarrow> (ustr \<times> nat) list" where
  "count_word [] w = [(w, 1)]"
| "count_word ((k, n) # kvs) w =
     (if k = w then (k, n + 1) # kvs else (k, n) # count_word kvs w)"

text \<open>The second loop over the tokens: counting the alphabetic ones longer than 4.\<close>

fun freq_loop :: "str_tables \<Rightarrow> ustr list \<Rightarrow> (ustr \<times> nat) list \<Rightarrow> (ustr \<times> nat) list" where
  "freq_loop U [] word_freq = word_freq"
| "freq_loop U (word # words) word_freq =
     (let clean_word = text_strip (lower U word)
      in freq_loop U words
           (if length clean_word > 4 \<and> isalpha U clean_word then count_word word_freq clean_word
            else word_freq))"

text \<open>
  \<^verbatim>\<open>sorted(word_freq.items(), key=lambda x: x[1], reverse=True)[:10]\<close>: a stable
  sort by falling count, then the first ten.
\<close>

definition frequent_words :: "(ustr \<times> nat) list \<Rightarrow> (ustr \<times> nat) list" where
  "frequent_words word_freq = take 10 (sort_key (\<lambda>x. - int (snd x)) word_freq)"

text \<open>The list \<open>concepts\<close> before the last line of the function.\<close>

definition concepts_before_dedup :: "str_tables \<Rightarrow> ustr \<Rightarrow> ustr list" where
  "concepts_before_dedup U text =
     (let text1 = sub_punct U text;
          sentences = split_on 46 text1;
          words = split_ws text1;
          concepts = capitalized_loop U words [];
          word_freq = freq_loop U words []
      in concepts @ map fst (filter (\<lambda>(word, freq). freq > 1) (frequent_words word_freq)))"

definition extract_key_concepts ::
  "str_tables \<Rightarrow> (ustr list \<Rightarrow> ustr list) \<Rightarrow> ustr \<Rightarrow> ustr list" where
  "extract_key_concepts U set_list text = take 8 (set_list (concepts_before_dedup U text))"

subsection \<open>Assignments\<close>

definition generic_topic :: string where
  "generic_topic = ''the main topic discussed''"

text \<open>The assignments made from the concepts, before the loop that fills up.\<close>

definition concept_assignments :: "string list \<Rightarrow> string list" where
  "concept_assignments concepts =
     (if concepts \<noteq> [] then
        (let selected_concepts = (if length concepts \<ge> 2 then take 2 concepts else concepts)
         in map (\<lambda>(i, concept).
                   format_topic (assignment_templates ! (i mod length assignment_templates))
                     (title concept))
              (enumerate 0 selected_concepts))
      else [])"

text \<open>\<^verbatim>\<open>[t for t in self.assignment_templates if not any(t in a for a in assignments)]\<close>\<close>

definition remaining_templates :: "string list \<Rightarrow> string list" where
  "remaining_templates assignments =
     filter (\<lambda>t. \<not> list_ex (\<lambda>a. sublist t a) assignments) assignment_templates"

text \<open>The loop \<^verbatim>\<open>while len(assignments) < 2\<close>.\<close>

function fill_up :: "string list \<Rightarrow> rng \<Rightarrow> py_error + (string list \<times> rng)" where
  "fill_up assignments g =
     (if length assignments < 2 then
        (if remaining_templates assignments \<noteq> [] then
           (case choice (remaining_templates assignments) g of
              Inl e \<Rightarrow> Inl e
            | Inr (template, g') \<Rightarrow>
                fill_up (assignments @ [format_topic template generic_topic]) g')
         else Inr (assignments, g))
      else Inr (assignments, g))"
  by pat_completeness auto
termination
  by (relation "measure (\<lambda>(assignments, g). 2 - length assignments)") auto

definition generate_assignments ::
  "rng \<Rightarrow> string \<Rightarrow> string list \<Rightarrow> py_error + (string list \<times> rng)" where
  "generate_assignments g text concepts =
     (case fill_up (concept_assignments concepts) g of
        Inl e \<Rightarrow> Inl e
      | Inr (assignments, g') \<Rightarrow> Inr (take 2 assignments, g'))"

subsection \<open>The page: topic text and statistics\<close>

text \<open>A line break and the sixteen spaces that indent each line of the text.\<close>

definition line_start :: ustr where
  "line_start = 10 # codes ''                ''"

text \<open>The text made from a topic; without a topic it is empty.\<close>

definition topic_text :: "ustr \<Rightarrow> ustr" where
  "topic_text topic =
     (if topic \<noteq> [] then
        line_start @ topic @ codes '' is an important subject that involves multiple key concepts and principles. ''
        @ line_start @ codes ''Understanding '' @ topic @ codes '' requires knowledge of its fundamental components, processes, and applications.''
        @ line_start @ codes ''The study of '' @ topic @ codes '' encompasses various aspects including its historical development, ''
        @ line_start @ codes ''current applications, and future implications. Key elements of '' @ topic @ codes '' include its ''
        @ line_start @ codes ''theoretical foundations, practical implementations, and relationship to other related fields.''
        @ line_start @ codes ''Researchers and practitioners in '' @ topic @ codes '' continue to explore new methodologies and ''
        @ line_start @ codes ''approaches to advance our understanding of this important area.''
        @ line_start
      else [])"

definition word_count :: "ustr \<Rightarrow> nat" where
  "word_count input_text = length (split_ws input_text)"

definition sentence_count :: "ustr \<Rightarrow> nat" where
  "sentence_count input_text =
     length (filter (\<lambda>s. text_strip s \<noteq> []) (split_on 46 input_text))"

section \<open>Notions of the specification\<close>

text \<open>The number of places of a text at which a given string starts.\<close>

fun occurrences :: "'a list \<Rightarrow> 'a list \<Rightarrow> nat" where
  "occurrences sub [] = (if sub = [] then 1 else 0)"
| "occurrences sub (c # cs) = (if prefix sub (c # cs) then 1 else 0) + occurrences sub cs"

text \<open>
  The number of whitespace-delimited tokens of a text, counted where they start: at
  a code point that is not whitespace and whose predecessor, if there is one, is.
  The flag says whether the previous code point belongs to a token.
\<close>

fun token_starts :: "bool \<Rightarrow> ustr \<Rightarrow> nat" where
  "token_starts inside [] = 0"
| "token_starts inside (c # cs) =
     (if \<not> is_whitespace c \<and> \<not> inside then 1 else 0) + token_starts (\<not> is_whitespace c) cs"

text \<open>The number of non-empty fragments between the full stops of a text.\<close>

definition nonempty_fragments :: "ustr \<Rightarrow> nat" where
  "nonempty_fragments s = length (filter (\<lambda>f. f \<noteq> []) (split_on 46 s))"

text \<open>
  The number of fragments between the full stops of a text that hold at least one
  code point other than whitespace.
\<close>

definition nonblank_fragments :: "ustr \<Rightarrow> nat" where
  "nonblank_fragments s = length (filter (\<lambda>f. \<not> list_all is_whitespace f) (split_on 46 s))"

text \<open>
  The elements of a list in the order in which they first occur: the order in
  which a collection that remembers insertion would hold them.
\<close>

definition insertion_order :: "'a list \<Rightarrow> 'a list" where
  "insertion_order xs = rev (remdups (rev xs))"

text \<open>The concepts that each of the two passes of the extraction adds.\<close>

definition capitalized_concepts :: "str_tables \<Rightarrow> ustr \<Rightarrow> ustr list" where
  "capitalized_concepts U text = capitalized_loop U (words_of U text) []"

definition frequent_concepts :: "str_tables \<Rightarrow> ustr \<Rightarrow> ustr list" where
  "frequent_concepts U text =
     map fst (filter (\<lambda>(word, freq). freq > 1)
       (frequent_words (freq_loop U (words_of U text) [])))"

text \<open>A token: not empty and free of whitespace.\<close>

definition token :: "ustr \<Rightarrow> bool" where
  "token w = (w \<noteq> [] \<and> (\<forall>c\<in>set w. \<not> is_whitespace c))"

text \<open>
  What the proofs about the entries need of the tables: lower-casing a token
  gives a token. \<^verbatim>\<open>str.lower\<close> maps every code point to one or more code points
  and maps none that is not whitespace to whitespace, so the tables of the
  interpreter meet the condition.
\<close>

definition lower_keeps_tokens :: "str_tables \<Rightarrow> bool" where
  "lower_keeps_tokens U = (\<forall>w. token w \<longrightarrow> token (lower U w))"

text \<open>
  The cleaned words that the frequency loop counts, one for each occurrence of an
  eligible token, in the order of the text.
\<close>

definition counted_words :: "str_tables \<Rightarrow> ustr list \<Rightarrow> ustr list" where
  "counted_words U words =
     filter (\<lambda>cw. length cw > 4 \<and> isalpha U cw) (map (\<lambda>w. text_strip (lower U w)) words)"

text \<open>
  A table that holds, under different keys, exactly the number of occurrences of
  each word of a list.
\<close>

definition tallied :: "(ustr \<times> nat) list \<Rightarrow> ustr list \<Rightarrow> bool" where
  "tallied tab seen =
     (distinct (map fst tab)
      \<and> (\<forall>j. map_of tab j = (if j \<in> set seen then Some (count_list seen j) else None)))"

text \<open>
  A string in which no opening brace is directly followed by the letter \<open>t\<close>; such a
  string cannot contain the placeholder \<open>{topic}\<close>.
\<close>

definition no_brace_t :: "string \<Rightarrow> bool" where
  "no_brace_t a = (\<not> sublist ''{t'' a)"

text \<open>The assignment made from template number \<open>j\<close> and the fallback topic.\<close>

definition generic_assignment :: "nat \<Rightarrow> string" where
  "generic_assignment j = format_topic (assignment_templates ! j) generic_topic"

text \<open>What one entry of a quiz has to satisfy for a given intended answer.\<close>

definition quiz_ok :: "string list \<Rightarrow> nat \<Rightarrow> quiz_question \<Rightarrow> bool" where
  "quiz_ok concepts i qq =
     (\<exists>k. length (options qq) = 4 \<and> count_list (options qq) (intended_answer i concepts) = 1
        \<and> k < 4 \<and> correct_answer qq = chr (65 + k)
        \<and> options qq ! k = intended_answer i concepts)"

section \<open>Evaluating characters\<close>

lemmas char_simps = is_upper_def is_lower_def is_alpha_def is_space_def
  lower_char_def upper_char_def char_of_def bit_Suc_0_iff

section \<open>The quiz generator: proofs\<close>

lemma randbelow_less: "0 < n \<Longrightarrow> fst (randbelow n g) < n"
  by (simp add: randbelow_def)

lemma shuffle_from_mset:
  "i < length xs \<Longrightarrow> mset (fst (shuffle_from i xs g)) = mset xs"
proof (induction i arbitrary: xs g)
  case 0
  then show ?case by simp
next
  case (Suc i)
  obtain j g' where r: "randbelow (Suc i + 1) g = (j, g')" by (cases "randbelow (Suc i + 1) g")
  have "j < Suc i + 1" using randbelow_less [of "Suc i + 1" g] r by simp
  with Suc.prems have j: "j < length xs" by simp
  have m: "mset (xs[Suc i := xs ! j, j := xs ! Suc i]) = mset xs"
    using Suc.prems j by (simp add: mset_swap)
  have "i < length (xs[Suc i := xs ! j, j := xs ! Suc i])" using Suc.prems by simp
  from Suc.IH [OF this] m r show ?case by simp
qed

lemma shuffle_mset: "mset (fst (shuffle xs g)) = mset xs"
proof (cases xs)
  case Nil
  then show ?thesis by (simp add: shuffle_def)
next
  case (Cons a list)
  then show ?thesis by (simp add: shuffle_def shuffle_from_mset)
qed

lemma index_from_found:
  "x \<in> set xs \<Longrightarrow> \<exists>k. index_from n x xs = Inr (n + k) \<and> k < length xs \<and> xs ! k = x"
proof (induction xs arbitrary: n)
  case Nil
  then show ?case by simp
next
  case (Cons y ys)
  show ?case
  proof (cases "y = x")
    case True
    then show ?thesis by simp
  next
    case False
    with Cons.prems have "x \<in> set ys" by simp
    from Cons.IH [OF this, of "Suc n"] obtain k where
      "index_from (Suc n) x ys = Inr (Suc n + k)" "k < length ys" "ys ! k = x" by blast
    with False show ?thesis by (intro exI [of _ "Suc k"]) simp
  qed
qed

lemma index_found: "x \<in> set xs \<Longrightarrow> \<exists>k. index xs x = Inr k \<and> k < length xs \<and> xs ! k = x"
  using index_from_found [of x xs 0] by (simp add: index_def)

lemma count_list_mset: "count_list xs x = count (mset xs) x"
  by (induction xs) auto

lemma make_question_ok:
  assumes "correct \<notin> set wrong" and "length wrong = 3"
  shows "\<exists>qq g' k. make_question q correct wrong g = Inr (qq, g') \<and> question qq = q
           \<and> length (options qq) = 4 \<and> count_list (options qq) correct = 1
           \<and> k < 4 \<and> correct_answer qq = chr (65 + k) \<and> options qq ! k = correct"
proof -
  obtain ys g' where s: "shuffle ([correct] @ wrong) g = (ys, g')"
    by (cases "shuffle ([correct] @ wrong) g")
  have m: "mset ys = mset ([correct] @ wrong)" using shuffle_mset [of "[correct] @ wrong" g] s by simp
  then have len: "length ys = 4" using assms(2) by (metis length_append list.size(3,4) mset_eq_length One_nat_def Suc_eq_plus1 numeral_3_eq_3 numeral_Bit0 add_Suc_right add_Suc add_0 plus_1_eq_Suc numeral_One Suc_numeral semiring_norm(2,8))
  have c: "count_list ys correct = 1" using m assms(1) by (simp add: count_list_mset count_eq_zero_iff)
  then have "correct \<in> set ys" by (metis count_list_0_iff zero_neq_one)
  from index_found [OF this] obtain k where k: "index ys correct = Inr k" "k < length ys" "ys ! k = correct" by blast
  show ?thesis using s k c len by (auto simp add: make_question_def)
qed

lemma concept_wrong_length: "length (concept_wrong_answers i c) = 3"
  by (simp add: concept_wrong_answers_def)

lemma concept_correct_notin: "concept_correct_answer c \<notin> set (concept_wrong_answers i c)"
  by (simp add: concept_wrong_answers_def concept_correct_answer_def)

lemma generic_correct_notin: "generic_correct_answer \<notin> set generic_wrong_answers"
  by (simp add: generic_correct_answer_def generic_wrong_answers_def)

lemma question_parts_ok:
  "\<exists>q wrong g'. question_parts i concepts g = Inr ((q, intended_answer i concepts, wrong), g')
      \<and> length wrong = 3 \<and> intended_answer i concepts \<notin> set wrong"
  using generic_correct_notin
  by (simp add: question_parts_def intended_answer_def choice_def question_starters_def
      randbelow_def concept_wrong_length concept_correct_notin Let_def
      generic_wrong_answers_def)

lemma quiz_step_ok:
  "\<exists>qq g' k. quiz_step i concepts g = Inr (qq, g')
      \<and> length (options qq) = 4 \<and> count_list (options qq) (intended_answer i concepts) = 1
      \<and> k < 4 \<and> correct_answer qq = chr (65 + k) \<and> options qq ! k = intended_answer i concepts"
proof -
  from question_parts_ok [of i concepts g] obtain q wrong g1 where
    p: "question_parts i concepts g = Inr ((q, intended_answer i concepts, wrong), g1)"
    and w: "length wrong = 3" "intended_answer i concepts \<notin> set wrong" by blast
  from make_question_ok [OF w(2) w(1), of q g1] p show ?thesis
    by (auto simp add: quiz_step_def)
qed

lemma quiz_loop_ok:
  "\<exists>new g'. quiz_loop is concepts qs g = Inr (qs @ new, g') \<and> list_all2 (quiz_ok concepts) is new"
proof (induction "is" arbitrary: qs g)
  case Nil
  then show ?case by simp
next
  case (Cons i "is")
  from quiz_step_ok [of i concepts g] obtain qq g1 where
    s: "quiz_step i concepts g = Inr (qq, g1)" and ok: "quiz_ok concepts i qq"
    unfolding quiz_ok_def by blast
  from Cons.IH [of "qs @ [qq]" g1] obtain new g' where
    "quiz_loop is concepts (qs @ [qq]) g1 = Inr ((qs @ [qq]) @ new, g')"
    "list_all2 (quiz_ok concepts) is new" by blast
  with s ok show ?case by (intro exI [of _ "qq # new"] exI [of _ g']) simp
qed

lemma generate_quiz_questions_ok:
  "\<exists>q0 q1 q2 g'. generate_quiz_questions g text concepts = Inr ([q0, q1, q2], g')
     \<and> quiz_ok concepts 0 q0 \<and> quiz_ok concepts 1 q1 \<and> quiz_ok concepts 2 q2"
proof -
  from quiz_loop_ok [of "[0, 1, 2]" concepts "[]" g] obtain new g' where
    l: "quiz_loop [0, 1, 2] concepts [] g = Inr (new, g')"
    and a: "list_all2 (quiz_ok concepts) [0, 1, 2] new" by auto
  from a obtain q0 q1 q2 where "new = [q0, q1, q2]" "quiz_ok concepts 0 q0"
      "quiz_ok concepts 1 q1" "quiz_ok concepts 2 q2"
    by (auto simp add: list_all2_Cons1)
  with l show ?thesis by (simp add: generate_quiz_questions_def)
qed

text \<open>
  Claim C1. For every text, every list of concepts and every state of the random
  generator, \<open>generate_quiz_questions\<close> raises nothing and returns exactly three
  questions; the options of each have length four and contain the intended
  correct answer exactly once.
\<close>

theorem quiz_three_questions_four_options:
  "\<exists>qs g'. generate_quiz_questions g text concepts = Inr (qs, g') \<and> length qs = 3
     \<and> (\<forall>i<3. length (options (qs ! i)) = 4
            \<and> count_list (options (qs ! i)) (intended_answer i concepts) = 1)"
proof -
  from generate_quiz_questions_ok [of g "text" concepts] obtain q0 q1 q2 g' where
    r: "generate_quiz_questions g text concepts = Inr ([q0, q1, q2], g')"
    and ok: "quiz_ok concepts 0 q0" "quiz_ok concepts 1 q1" "quiz_ok concepts 2 q2" by blast
  have "length (options ([q0, q1, q2] ! i)) = 4
            \<and> count_list (options ([q0, q1, q2] ! i)) (intended_answer i concepts) = 1"
    if "i < 3" for i
  proof -
    from that consider "i = 0" | "i = 1" | "i = 2" by linarith
    then show ?thesis using ok by cases (auto simp add: quiz_ok_def)
  qed
  with r show ?thesis by auto
qed

theorem quiz_three_questions_four_options_witness:
  "\<exists>qs g'. generate_quiz_questions (\<lambda>n. n) ''Plants grow.'' [''plants''] = Inr (qs, g')
     \<and> length qs = 3 \<and> length (options (qs ! 0)) = 4 \<and> (0::nat) < 3
     \<and> count_list (options (qs ! 0)) ''Plants is a key concept discussed in the text'' = 1
     \<and> count_list (options (qs ! 2)) ''The text provides valuable information on the topic'' = 1"
proof -
  have a: "intended_answer 0 [''plants''] = ''Plants is a key concept discussed in the text''"
    by (simp add: intended_answer_def concept_correct_answer_def title_def char_simps)
  have b: "intended_answer 2 [''plants''] = ''The text provides valuable information on the topic''"
    by (simp add: intended_answer_def generic_correct_answer_def)
  from quiz_three_questions_four_options [of "\<lambda>n. n" "''Plants grow.''" "[''plants'']"]
  obtain qs g' where r: "generate_quiz_questions (\<lambda>n. n) ''Plants grow.'' [''plants''] = Inr (qs, g')"
     "length qs = 3" and al: "\<forall>i<3. length (options (qs ! i)) = 4
            \<and> count_list (options (qs ! i)) (intended_answer i [''plants'']) = 1" by blast
  from al have "length (options (qs ! 0)) = 4"
    "count_list (options (qs ! 0)) (intended_answer 0 [''plants'']) = 1"
    "count_list (options (qs ! 2)) (intended_answer 2 [''plants'']) = 1" by simp_all
  with r a b show ?thesis by simp
qed

text \<open>
  Claim C2. For every input, the recorded label of each question is one of
  \<open>A\<close>, \<open>B\<close>, \<open>C\<close>, \<open>D\<close>, and the option at the position of that label (counted
  from \<open>A\<close> as 0) in the shuffled options is the intended correct answer.
\<close>

theorem quiz_label_points_at_correct_answer:
  "\<exists>qs g'. generate_quiz_questions g text concepts = Inr (qs, g')
     \<and> (\<forall>i<3. correct_answer (qs ! i) \<in> {''A'', ''B'', ''C'', ''D''}
            \<and> (\<exists>k<4. correct_answer (qs ! i) = [''A'', ''B'', ''C'', ''D''] ! k
                   \<and> options (qs ! i) ! k = intended_answer i concepts))"
proof -
  from generate_quiz_questions_ok [of g "text" concepts] obtain q0 q1 q2 g' where
    r: "generate_quiz_questions g text concepts = Inr ([q0, q1, q2], g')"
    and ok: "quiz_ok concepts 0 q0" "quiz_ok concepts 1 q1" "quiz_ok concepts 2 q2" by blast
  have lab: "chr (65 + k) = [''A'', ''B'', ''C'', ''D''] ! k" if "k < 4" for k
  proof -
    from that consider "k = 0" | "k = 1" | "k = 2" | "k = 3" by linarith
    then show ?thesis by cases (simp_all add: chr_def char_of_def bit_Suc_0_iff)
  qed
  have one: "correct_answer qq \<in> {''A'', ''B'', ''C'', ''D''}
            \<and> (\<exists>k<4. correct_answer qq = [''A'', ''B'', ''C'', ''D''] ! k
                   \<and> options qq ! k = intended_answer i concepts)"
    if "quiz_ok concepts i qq" for i qq
  proof -
    from that obtain k where k: "k < 4" "correct_answer qq = chr (65 + k)"
      "options qq ! k = intended_answer i concepts" unfolding quiz_ok_def by blast
    from k(1) consider "k = 0" | "k = 1" | "k = 2" | "k = 3" by linarith
    then have "correct_answer qq \<in> {''A'', ''B'', ''C'', ''D''}"
      using k(2) lab [OF k(1)] by cases simp_all
    with k lab [OF k(1)] show ?thesis by auto
  qed
  have "correct_answer ([q0, q1, q2] ! i) \<in> {''A'', ''B'', ''C'', ''D''}
            \<and> (\<exists>k<4. correct_answer ([q0, q1, q2] ! i) = [''A'', ''B'', ''C'', ''D''] ! k
                   \<and> options ([q0, q1, q2] ! i) ! k = intended_answer i concepts)"
    if "i < 3" for i
  proof -
    from that consider "i = 0" | "i = 1" | "i = 2" by linarith
    then show ?thesis using one [OF ok(1)] one [OF ok(2)] one [OF ok(3)] by cases simp_all
  qed
  with r show ?thesis by auto
qed

theorem quiz_label_points_at_correct_answer_witness:
  "\<exists>qs g'. generate_quiz_questions (\<lambda>n. n) ''Plants grow.'' [''plants''] = Inr (qs, g')
     \<and> (0::nat) < 3 \<and> correct_answer (qs ! 0) \<in> {''A'', ''B'', ''C'', ''D''}
     \<and> (\<exists>k<4. correct_answer (qs ! 0) = [''A'', ''B'', ''C'', ''D''] ! k
            \<and> options (qs ! 0) ! k = ''Plants is a key concept discussed in the text'')"
proof -
  have a: "intended_answer 0 [''plants''] = ''Plants is a key concept discussed in the text''"
    by (simp add: intended_answer_def concept_correct_answer_def title_def char_simps)
  from quiz_label_points_at_correct_answer [of "\<lambda>n. n" "''Plants grow.''" "[''plants'']"]
  obtain qs g' where r: "generate_quiz_questions (\<lambda>n. n) ''Plants grow.'' [''plants''] = Inr (qs, g')"
     and al: "\<forall>i<3. correct_answer (qs ! i) \<in> {''A'', ''B'', ''C'', ''D''}
            \<and> (\<exists>k<4. correct_answer (qs ! i) = [''A'', ''B'', ''C'', ''D''] ! k
                   \<and> options (qs ! i) ! k = intended_answer i [''plants''])" by blast
  from al have "correct_answer (qs ! 0) \<in> {''A'', ''B'', ''C'', ''D''}
            \<and> (\<exists>k<4. correct_answer (qs ! 0) = [''A'', ''B'', ''C'', ''D''] ! k
                   \<and> options (qs ! 0) ! k = intended_answer 0 [''plants''])" by simp
  with r a show ?thesis by simp
qed

section \<open>The assignment generator: proofs\<close>

lemma is_alpha_lower_char: "is_alpha (lower_char c) = is_alpha c"
  by (auto simp add: is_alpha_def lower_char_def is_upper_def is_lower_def Let_def of_char_of)

lemma is_alpha_upper_char: "is_alpha (upper_char c) = is_alpha c"
  by (auto simp add: is_alpha_def upper_char_def is_upper_def is_lower_def Let_def of_char_of)

lemma not_lower_upper_char: "\<not> is_lower (upper_char c)"
  by (auto simp add: upper_char_def is_lower_def Let_def of_char_of)

lemma pair_Cons: "sublist [a, b] (x # xs) \<longleftrightarrow> (x = a \<and> xs \<noteq> [] \<and> hd xs = b) \<or> sublist [a, b] xs"
  by (cases xs) (auto simp add: sublist_Cons_right)

lemma pair_append:
  "sublist [a, b] (xs @ ys) \<longleftrightarrow>
     sublist [a, b] xs \<or> sublist [a, b] ys \<or> (xs \<noteq> [] \<and> ys \<noteq> [] \<and> last xs = a \<and> hd ys = b)"
proof (induction xs)
  case Nil
  then show ?case by simp
next
  case (Cons x xs)
  show ?case
  proof (cases xs)
    case Nil
    then show ?thesis by (cases ys) (auto simp add: pair_Cons)
  next
    case (Cons y zs)
    with Cons.IH show ?thesis by (auto simp add: pair_Cons)
  qed
qed

lemma title_from_pair:
  "\<not> is_alpha a \<Longrightarrow> is_lower b \<Longrightarrow> \<not> sublist [a, b] (title_from p s)"
proof (induction s arbitrary: p)
  case Nil
  then show ?case by simp
next
  case (Cons c cs)
  show ?case
  proof (cases cs)
    case Nil
    then show ?thesis by (simp add: pair_Cons)
  next
    case (Cons d ds)
    have "\<not> sublist [a, b] (title_from (is_alpha c) cs)" using Cons.IH Cons.prems by blast
    moreover have "\<not> ((if p then lower_char c else upper_char c) = a
        \<and> hd (title_from (is_alpha c) cs) = b)"
    proof
      assume h: "(if p then lower_char c else upper_char c) = a
        \<and> hd (title_from (is_alpha c) cs) = b"
      then have "\<not> is_alpha c" using Cons.prems(1)
        by (metis is_alpha_lower_char is_alpha_upper_char)
      with h Cons have "upper_char d = b" by simp
      with Cons.prems(2) not_lower_upper_char show False by blast
    qed
    ultimately show ?thesis by (auto simp add: pair_Cons)
  qed
qed

lemma title_no_brace_t: "\<not> sublist ''{t'' (title c)"
  by (simp add: title_def title_from_pair is_alpha_def is_lower_def is_upper_def)

lemma format_template_0:
  "format_topic (assignment_templates ! 0) x =
     ''Write a comprehensive essay analyzing '' @ x
     @ ''. Discuss its key components, significance, and implications.''"
  by (simp add: assignment_templates_def)

lemma format_template_1:
  "format_topic (assignment_templates ! 1) x =
     ''Compare and contrast different aspects of '' @ x
     @ ''. Provide specific examples and explain their relevance.''"
  by (simp add: assignment_templates_def)

lemma format_template_2:
  "format_topic (assignment_templates ! 2) x =
     ''Evaluate the importance of '' @ x
     @ '' in its broader context. Support your arguments with evidence and reasoning.''"
  by (simp add: assignment_templates_def)

lemma format_template_3:
  "format_topic (assignment_templates ! 3) x =
     ''Examine the relationship between '' @ x
     @ '' and related concepts. How do they influence each other?''"
  by (simp add: assignment_templates_def)

lemma format_template_4:
  "format_topic (assignment_templates ! 4) x =
     ''Create a detailed analysis of '' @ x
     @ '', including its causes, effects, and potential solutions or applications.''"
  by (simp add: assignment_templates_def)

lemma length_templates: "length assignment_templates = 5"
  by (simp add: assignment_templates_def)

lemma no_pair_literal: "CHR ''{'' \<notin> set s \<Longrightarrow> \<not> sublist ''{t'' s"
  using set_mono_sublist [of "''{t''" s] by auto

lemma pair_sandwich:
  assumes "CHR ''{'' \<notin> set p" and "CHR ''{'' \<notin> set s" and "s \<noteq> []"
    and "hd s \<noteq> CHR ''t''" and "\<not> sublist ''{t'' x"
  shows "\<not> sublist ''{t'' (p @ x @ s)"
proof -
  have "\<not> sublist ''{t'' (x @ s)"
    using assms(2-5) by (auto simp add: pair_append dest: no_pair_literal)
  moreover have "last p \<noteq> CHR ''{''" if "p \<noteq> []"
    using that assms(1) last_in_set by metis
  ultimately show ?thesis
    using assms(1) by (auto simp add: pair_append [of _ _ p] dest: no_pair_literal)
qed

lemma template_shape:
  assumes "i < 5"
  shows "\<exists>p s. (\<forall>x. format_topic (assignment_templates ! i) x = p @ x @ s)
           \<and> CHR ''{'' \<notin> set p \<and> CHR ''{'' \<notin> set s \<and> s \<noteq> [] \<and> hd s \<noteq> CHR ''t''"
proof -
  from assms consider "i = 0" | "i = 1" | "i = 2" | "i = 3" | "i = 4" by linarith
  then show ?thesis
  proof cases
    case 1
    show ?thesis unfolding 1 format_template_0
      by (intro exI [of _ "''Write a comprehensive essay analyzing ''"]
          exI [of _ "''. Discuss its key components, significance, and implications.''"]) simp
  next
    case 2
    show ?thesis unfolding 2 format_template_1
      by (intro exI [of _ "''Compare and contrast different aspects of ''"]
          exI [of _ "''. Provide specific examples and explain their relevance.''"]) simp
  next
    case 3
    show ?thesis unfolding 3 format_template_2
      by (intro exI [of _ "''Evaluate the importance of ''"]
          exI [of _ "'' in its broader context. Support your arguments with evidence and reasoning.''"]) simp
  next
    case 4
    show ?thesis unfolding 4 format_template_3
      by (intro exI [of _ "''Examine the relationship between ''"]
          exI [of _ "'' and related concepts. How do they influence each other?''"]) simp
  next
    case 5
    show ?thesis unfolding 5 format_template_4
      by (intro exI [of _ "''Create a detailed analysis of ''"]
          exI [of _ "'', including its causes, effects, and potential solutions or applications.''"]) simp
  qed
qed

lemma format_no_brace_t:
  assumes "i < 5" and "no_brace_t x"
  shows "no_brace_t (format_topic (assignment_templates ! i) x)"
proof -
  from template_shape [OF assms(1)] obtain p s where
    f: "format_topic (assignment_templates ! i) x = p @ x @ s"
    and c: "CHR ''{'' \<notin> set p" "CHR ''{'' \<notin> set s" "s \<noteq> []" "hd s \<noteq> CHR ''t''" by blast
  show ?thesis unfolding no_brace_t_def f
    using pair_sandwich [OF c] assms(2) by (simp add: no_brace_t_def)
qed

lemma generic_no_brace_t: "no_brace_t generic_topic"
  by (simp add: no_brace_t_def generic_topic_def no_pair_literal)

lemma title_no_brace: "no_brace_t (title c)"
  by (simp add: no_brace_t_def title_no_brace_t)

lemma template_has_placeholder:
  "t \<in> set assignment_templates \<Longrightarrow> sublist ''{topic}'' t"
  unfolding assignment_templates_def
  by (auto simp add: sublist_Cons_right)

declare fill_up.simps [simp del]

lemma template_has_brace_t: "t \<in> set assignment_templates \<Longrightarrow> sublist ''{t'' t"
  unfolding assignment_templates_def
  by (auto simp add: sublist_Cons_right)

lemma sublist_chain: "sublist xs ys \<Longrightarrow> sublist ys zs \<Longrightarrow> sublist xs zs"
proof -
  assume "sublist xs ys" and "sublist ys zs"
  then obtain p s p' s' where "ys = p @ xs @ s" "zs = p' @ ys @ s'"
    unfolding sublist_def by blast
  then have "zs = (p' @ p) @ xs @ (s @ s')" by simp
  then show ?thesis unfolding sublist_def by blast
qed

lemma templates_not_empty: "assignment_templates \<noteq> []"
  by (simp add: assignment_templates_def)

lemma remaining_all:
  assumes "\<forall>a\<in>set as. no_brace_t a"
  shows "remaining_templates as = assignment_templates"
proof -
  have "\<not> list_ex (\<lambda>a. sublist t a) as" if t: "t \<in> set assignment_templates" for t
  proof
    assume "list_ex (\<lambda>a. sublist t a) as"
    then obtain a where a: "a \<in> set as" "sublist t a" by (auto simp add: list_ex_iff)
    from template_has_brace_t [OF t] a(2) have "sublist ''{t'' a"
      by (rule sublist_chain)
    with assms a(1) show False by (simp add: no_brace_t_def)
  qed
  then show ?thesis by (simp add: remaining_templates_def)
qed

lemma generic_assignment_no_brace: "j < 5 \<Longrightarrow> no_brace_t (generic_assignment j)"
  by (simp add: generic_assignment_def format_no_brace_t generic_no_brace_t)

lemma fill_up_done: "2 \<le> length as \<Longrightarrow> fill_up as g = Inr (as, g)"
  by (subst fill_up.simps) simp

lemma fill_up_step:
  assumes "length as < 2" and "\<forall>a\<in>set as. no_brace_t a"
  shows "fill_up as g = fill_up (as @ [generic_assignment (g 0 mod 5)]) (\<lambda>k. g (Suc k))"
  using assms(1)
  by (subst fill_up.simps)
    (simp add: remaining_all [OF assms(2)] choice_def randbelow_def length_templates
      generic_assignment_def templates_not_empty)

lemma fill_up_one:
  assumes "no_brace_t a"
  shows "fill_up [a] g = Inr ([a, generic_assignment (g 0 mod 5)], \<lambda>k. g (Suc k))"
  using assms by (simp add: fill_up_step fill_up_done)

lemma fill_up_zero:
  "fill_up [] g =
     Inr ([generic_assignment (g 0 mod 5), generic_assignment (g 1 mod 5)], \<lambda>k. g (Suc (Suc k)))"
  by (simp add: fill_up_step fill_up_done generic_assignment_no_brace)

lemma concept_assignments_none: "concept_assignments [] = []"
  by (simp add: concept_assignments_def)

lemma concept_assignments_one:
  "concept_assignments [c] = [format_topic (assignment_templates ! 0) (title c)]"
  by (simp add: concept_assignments_def length_templates)

lemma concept_assignments_more:
  "concept_assignments (c0 # c1 # cs) =
     [format_topic (assignment_templates ! 0) (title c0),
      format_topic (assignment_templates ! 1) (title c1)]"
  by (simp add: concept_assignments_def length_templates)

lemma generate_assignments_none:
  "generate_assignments g text [] =
     Inr ([generic_assignment (g 0 mod 5), generic_assignment (g 1 mod 5)], \<lambda>k. g (Suc (Suc k)))"
  by (simp add: generate_assignments_def concept_assignments_none fill_up_zero)

lemma generate_assignments_one:
  "generate_assignments g text [c] =
     Inr ([format_topic (assignment_templates ! 0) (title c), generic_assignment (g 0 mod 5)],
          \<lambda>k. g (Suc k))"
  by (simp add: generate_assignments_def concept_assignments_one fill_up_one
      format_no_brace_t title_no_brace)

lemma generate_assignments_more:
  "generate_assignments g text (c0 # c1 # cs) =
     Inr ([format_topic (assignment_templates ! 0) (title c0),
           format_topic (assignment_templates ! 1) (title c1)], g)"
  by (simp add: generate_assignments_def concept_assignments_more fill_up_done)

lemma no_placeholder: "no_brace_t a \<Longrightarrow> \<not> sublist ''{topic}'' a"
proof
  assume n: "no_brace_t a" and s: "sublist ''{topic}'' a"
  have "sublist ''{t'' ''{topic}''" by (simp add: sublist_Cons_right)
  from sublist_chain [OF this s] n show False by (simp add: no_brace_t_def)
qed

lemma concept_assignment_no_brace:
  "i < 5 \<Longrightarrow> no_brace_t (format_topic (assignment_templates ! i) (title c))"
  by (simp add: format_no_brace_t title_no_brace)

lemma generate_assignments_cases:
  obtains (none) "concepts = []"
      "generate_assignments g tx concepts =
         Inr ([generic_assignment (g 0 mod 5), generic_assignment (g 1 mod 5)],
              \<lambda>k. g (Suc (Suc k)))"
  | (one) c where "concepts = [c]"
      "generate_assignments g tx concepts =
         Inr ([format_topic (assignment_templates ! 0) (title c), generic_assignment (g 0 mod 5)],
              \<lambda>k. g (Suc k))"
  | (more) c0 c1 cs where "concepts = c0 # c1 # cs"
      "generate_assignments g tx concepts =
         Inr ([format_topic (assignment_templates ! 0) (title c0),
               format_topic (assignment_templates ! 1) (title c1)], g)"
proof (cases concepts)
  case Nil
  then show ?thesis using none generate_assignments_none by simp
next
  case (Cons c0 rest)
  show ?thesis
  proof (cases rest)
    case Nil
    with Cons show ?thesis using one generate_assignments_one by simp
  next
    case (Cons c1 cs)
    with \<open>concepts = c0 # rest\<close> show ?thesis using more generate_assignments_more by simp
  qed
qed

lemma generate_assignments_two:
  "\<exists>a b g'. generate_assignments g tx concepts = Inr ([a, b], g')
      \<and> no_brace_t a \<and> no_brace_t b"
proof (cases rule: generate_assignments_cases [where concepts = concepts and g = g and tx = tx])
  case none
  then show ?thesis by (simp add: generic_assignment_no_brace)
next
  case (one c)
  then show ?thesis by (simp add: generic_assignment_no_brace concept_assignment_no_brace)
next
  case (more c0 c1 cs)
  then show ?thesis by (simp add: concept_assignment_no_brace)
qed

text \<open>
  Claim C5. For every text, every list of concepts (the empty one included) and
  every state of the random generator, \<open>generate_assignments\<close> returns exactly two
  assignments. The reason is the one the claim gives: each of the five templates
  contains the placeholder \<open>{topic}\<close>, no assignment text ever does, so the filter
  by containment leaves all five templates at every turn of the loop and the
  branch that gives up is never taken.
\<close>

theorem assignments_always_two:
  "\<exists>as g'. generate_assignments g text concepts = Inr (as, g') \<and> length as = 2
     \<and> length assignment_templates = 5
     \<and> (\<forall>t\<in>set assignment_templates. sublist ''{topic}'' t)
     \<and> (\<forall>a\<in>set as. \<not> sublist ''{topic}'' a)
     \<and> (\<forall>k. remaining_templates (take k as) = assignment_templates)"
proof -
  from generate_assignments_two [of g "text" concepts] obtain a b g' where
    r: "generate_assignments g text concepts = Inr ([a, b], g')"
    and n: "no_brace_t a" "no_brace_t b" by blast
  have "remaining_templates (take k [a, b]) = assignment_templates" for k
  proof (rule remaining_all)
    show "\<forall>x\<in>set (take k [a, b]). no_brace_t x"
      using n by (auto dest: in_set_takeD)
  qed
  moreover have "\<forall>t\<in>set assignment_templates. sublist ''{topic}'' t"
    using template_has_placeholder by blast
  ultimately show ?thesis using r n by (simp add: no_placeholder length_templates)
qed

theorem assignments_always_two_witness:
  "\<exists>as g'. generate_assignments (\<lambda>n. n) ''Plants grow.'' [] = Inr (as, g') \<and> length as = 2
     \<and> as ! 0 = ''Write a comprehensive essay analyzing the main topic discussed. Discuss its key components, significance, and implications.''
     \<and> as ! 0 \<in> set as \<and> \<not> sublist ''{topic}'' (as ! 0)
     \<and> assignment_templates ! 0 \<in> set assignment_templates
     \<and> sublist ''{topic}'' (assignment_templates ! 0)
     \<and> remaining_templates (take 1 as) = assignment_templates"
proof -
  from assignments_always_two [of "\<lambda>n. n" "''Plants grow.''" "[]"] obtain as g' where
    r: "generate_assignments (\<lambda>n. n) ''Plants grow.'' [] = Inr (as, g')" "length as = 2"
    and t: "\<forall>t\<in>set assignment_templates. sublist ''{topic}'' t"
    and a: "\<forall>a\<in>set as. \<not> sublist ''{topic}'' a"
    and k: "\<forall>k. remaining_templates (take k as) = assignment_templates" by blast
  have m: "assignment_templates ! 0 \<in> set assignment_templates"
    by (simp add: assignment_templates_def)
  have e: "as ! 0 = ''Write a comprehensive essay analyzing the main topic discussed. Discuss its key components, significance, and implications.''"
    using r(1) by (auto simp add: generate_assignments_none generic_assignment_def
        format_template_0 generic_topic_def)
  have i: "as ! 0 \<in> set as" using r(2) by simp
  from r t a k m e i show ?thesis by blast
qed

text \<open>
  Claim C6. When the list of concepts is not empty, the concepts used are its first
  two (or its only one), and the assignment at position \<open>i\<close> is template number
  \<open>i mod 5\<close> with the title-cased concept \<open>i\<close> in place of the placeholder. With
  two concepts or more the result is exactly these two assignments, their templates
  differ and neither text contains the placeholder \<open>{topic}\<close>.
\<close>

theorem concepts_fill_templates_in_order:
  assumes "concepts \<noteq> []"
  shows "\<exists>as g'. generate_assignments g text concepts = Inr (as, g')
     \<and> (\<forall>i < min 2 (length concepts).
           as ! i = format_topic (assignment_templates ! (i mod 5)) (title (concepts ! i)))
     \<and> (2 \<le> length concepts \<longrightarrow>
           length as = 2 \<and> assignment_templates ! (0 mod 5) \<noteq> assignment_templates ! (1 mod 5)
           \<and> (\<forall>a\<in>set as. \<not> sublist ''{topic}'' a))"
proof (cases rule: generate_assignments_cases [where concepts = concepts and g = g and tx = "text"])
  case none
  with assms show ?thesis by simp
next
  case (one c)
  then show ?thesis by simp
next
  case (more c0 c1 cs)
  define a0 where "a0 = format_topic (assignment_templates ! 0) (title c0)"
  define a1 where "a1 = format_topic (assignment_templates ! 1) (title c1)"
  have r: "generate_assignments g text concepts = Inr ([a0, a1], g)"
    using more(2) by (simp add: a0_def a1_def)
  have d: "assignment_templates ! (0 mod 5) \<noteq> assignment_templates ! (1 mod 5)"
    by (simp add: assignment_templates_def)
  have p: "[a0, a1] ! i = format_topic (assignment_templates ! (i mod 5)) (title (concepts ! i))"
    if "i < min 2 (length concepts)" for i
  proof -
    from that consider "i = 0" | "i = 1" by linarith
    then show ?thesis using more(1) by cases (simp_all add: a0_def a1_def)
  qed
  have n: "\<forall>a\<in>set [a0, a1]. \<not> sublist ''{topic}'' a"
    by (simp add: a0_def a1_def no_placeholder concept_assignment_no_brace)
  have l: "length [a0, a1] = 2" by simp
  from r p d n l show ?thesis by blast
qed

theorem concepts_fill_templates_in_order_witness:
  "[''plants'', ''solar energy'', ''water''] \<noteq> []
   \<and> (\<exists>as g'. generate_assignments (\<lambda>n. n) ''Plants grow.'' [''plants'', ''solar energy'', ''water'']
          = Inr (as, g')
        \<and> as ! 0 = ''Write a comprehensive essay analyzing Plants. Discuss its key components, significance, and implications.''
        \<and> as ! 1 = ''Compare and contrast different aspects of Solar Energy. Provide specific examples and explain their relevance.''
        \<and> length as = 2 \<and> as ! 1 \<in> set as \<and> \<not> sublist ''{topic}'' (as ! 1))"
proof -
  have ne: "[''plants'', ''solar energy'', ''water''] \<noteq> []" by simp
  from concepts_fill_templates_in_order [OF ne, of "\<lambda>n. n" "''Plants grow.''"]
  obtain as g' where
    r: "generate_assignments (\<lambda>n. n) ''Plants grow.'' [''plants'', ''solar energy'', ''water'']
          = Inr (as, g')"
    and i: "\<forall>i < min 2 (length [''plants'', ''solar energy'', ''water'']).
           as ! i = format_topic (assignment_templates ! (i mod 5))
             (title ([''plants'', ''solar energy'', ''water''] ! i))"
    and m: "2 \<le> length [''plants'', ''solar energy'', ''water''] \<longrightarrow>
           length as = 2 \<and> assignment_templates ! (0 mod 5) \<noteq> assignment_templates ! (1 mod 5)
           \<and> (\<forall>a\<in>set as. \<not> sublist ''{topic}'' a)" by blast
  have t0: "title ''plants'' = ''Plants''" and t1: "title ''solar energy'' = ''Solar Energy''"
    by (simp_all add: title_def char_simps)
  from i have "as ! 0 = format_topic (assignment_templates ! (0 mod 5)) (title ''plants'')"
    by simp
  then have a0: "as ! 0 = ''Write a comprehensive essay analyzing Plants. Discuss its key components, significance, and implications.''"
    by (simp add: format_template_0 t0)
  from i have "as ! 1 = format_topic (assignment_templates ! (1 mod 5)) (title ''solar energy'')"
    by simp
  then have a1: "as ! 1 = ''Compare and contrast different aspects of Solar Energy. Provide specific examples and explain their relevance.''"
    using format_template_1 [of "''Solar Energy''"] by (simp add: t1)
  from m have l: "length as = 2" and n: "\<forall>a\<in>set as. \<not> sublist ''{topic}'' a" by simp_all
  from l have "as ! 1 \<in> set as" by simp
  with n r a0 a1 l ne show ?thesis by blast
qed

text \<open>
  Claim C7. The loop that fills up is meant to put the fallback topic into a
  template not already used. It does not: the test by containment compares the
  templates, which hold the placeholder, with the finished assignments, which do
  not, and so leaves every template in. When \<open>random.choice\<close> draws the first of the
  templates left, the one concept and the fallback topic share template 0; with
  no concept and the same draw twice, the two assignments are the same text.
\<close>

theorem fallback_reuses_template:
  "map_sum id fst (generate_assignments (\<lambda>n. 0) ''Plants grow.'' [''plants'']) =
     Inr [format_topic (assignment_templates ! 0) ''Plants'',
          format_topic (assignment_templates ! 0) generic_topic]
   \<and> remaining_templates [format_topic (assignment_templates ! 0) ''Plants'']
       = assignment_templates
   \<and> format_topic (assignment_templates ! 0) ''Plants'' =
       ''Write a comprehensive essay analyzing Plants. Discuss its key components, significance, and implications.''
   \<and> format_topic (assignment_templates ! 0) generic_topic =
       ''Write a comprehensive essay analyzing the main topic discussed. Discuss its key components, significance, and implications.''
   \<and> map_sum id fst (generate_assignments (\<lambda>n. 0) ''Plants grow.'' []) =
       Inr [format_topic (assignment_templates ! 0) generic_topic,
            format_topic (assignment_templates ! 0) generic_topic]"
proof -
  have t: "title ''plants'' = ''Plants''" by (simp add: title_def char_simps)
  have a: "map_sum id fst (generate_assignments (\<lambda>n. 0) ''Plants grow.'' [''plants'']) =
     Inr [format_topic (assignment_templates ! 0) ''Plants'',
          format_topic (assignment_templates ! 0) generic_topic]"
    by (simp add: generate_assignments_one generic_assignment_def t)
  have "no_brace_t (format_topic (assignment_templates ! 0) ''Plants'')"
    using concept_assignment_no_brace [of 0 "''plants''"] by (simp add: t)
  then have r: "remaining_templates [format_topic (assignment_templates ! 0) ''Plants'']
       = assignment_templates"
    by (simp add: remaining_all)
  have p: "format_topic (assignment_templates ! 0) ''Plants'' =
       ''Write a comprehensive essay analyzing Plants. Discuss its key components, significance, and implications.''"
    by (simp add: format_template_0)
  have q: "format_topic (assignment_templates ! 0) generic_topic =
       ''Write a comprehensive essay analyzing the main topic discussed. Discuss its key components, significance, and implications.''"
    by (simp add: format_template_0 generic_topic_def)
  have b: "map_sum id fst (generate_assignments (\<lambda>n. 0) ''Plants grow.'' []) =
       Inr [format_topic (assignment_templates ! 0) generic_topic,
            format_topic (assignment_templates ! 0) generic_topic]"
    by (simp add: generate_assignments_none generic_assignment_def)
  from a r p q b show ?thesis by blast
qed

section \<open>The statistics: proofs\<close>

lemma length_split_run:
  "length (split_run cur s) = token_starts (cur \<noteq> []) s + (if cur \<noteq> [] then 1 else 0)"
  by (induction s arbitrary: cur) auto

lemma text_strip_empty_iff: "text_strip s = [] \<longleftrightarrow> list_all is_whitespace s"
proof
  assume "text_strip s = []"
  then have "\<forall>x\<in>set (dropWhile is_whitespace s). is_whitespace x"
    by (simp add: text_strip_def dropWhile_eq_Nil_conv)
  then have "dropWhile is_whitespace s = []"
    by (metis hd_dropWhile list.set_sel(1))
  then show "list_all is_whitespace s"
    by (simp add: dropWhile_eq_Nil_conv list_all_iff)
next
  assume "list_all is_whitespace s"
  then have "\<forall>x\<in>set s. is_whitespace x"
    by (simp only: list_all_iff)
  then have "dropWhile is_whitespace s = []"
    by (simp only: dropWhile_eq_Nil_conv)
  then show "text_strip s = []"
    by (auto simp add: text_strip_def dest: set_dropWhileD)
qed

text \<open>
  The sentence count is not the number of non-empty fragments: a fragment of
  whitespace only, such as the one after the last full stop of a text that ends in
  a space, is not empty and is not counted.
\<close>

theorem sentence_count_counterexample:
  "sentence_count (codes ''Plants grow. Water flows. '') = 2
   \<and> nonempty_fragments (codes ''Plants grow. Water flows. '') = 3
   \<and> sentence_count (codes ''Plants grow. Water flows. '')
       \<noteq> nonempty_fragments (codes ''Plants grow. Water flows. '')"
  by (simp add: sentence_count_def nonempty_fragments_def split_on_def text_strip_def
      is_whitespace_def codes_def)

text \<open>
  Claim C9, as amended. For every input text the word count is the number of
  whitespace-delimited tokens of the text, and the sentence count is the number of
  fragments between full stops that hold a code point other than whitespace.
\<close>

theorem statistics_count_tokens_and_nonblank_fragments:
  "word_count input_text = token_starts False input_text
   \<and> sentence_count input_text = nonblank_fragments input_text"
  by (simp add: word_count_def split_ws_def length_split_run sentence_count_def
      nonblank_fragments_def text_strip_empty_iff)

theorem statistics_count_tokens_and_nonblank_fragments_witness:
  "word_count (codes ''Plants grow. Water flows. '') = 4
   \<and> token_starts False (codes ''Plants grow. Water flows. '') = 4
   \<and> sentence_count (codes ''Plants grow. Water flows. '') = 2
   \<and> nonblank_fragments (codes ''Plants grow. Water flows. '') = 2
   \<and> word_count (codes ''one'' @ [160] @ codes ''two three'') = 3
   \<and> token_starts False (codes ''one'' @ [160] @ codes ''two three'') = 3
   \<and> sentence_count (codes ''a.'' @ [160]) = 1
   \<and> nonblank_fragments (codes ''a.'' @ [160]) = 1"
proof -
  have "token_starts False (codes ''Plants grow. Water flows. '') = 4"
    by (simp add: is_whitespace_def codes_def)
  moreover have "nonblank_fragments (codes ''Plants grow. Water flows. '') = 2"
    by (simp add: nonblank_fragments_def split_on_def is_whitespace_def codes_def)
  moreover have "token_starts False (codes ''one'' @ [160] @ codes ''two three'') = 3"
    by (simp add: is_whitespace_def codes_def)
  moreover have "nonblank_fragments (codes ''a.'' @ [160]) = 1"
    by (simp add: nonblank_fragments_def split_on_def is_whitespace_def codes_def)
  ultimately show ?thesis
    using statistics_count_tokens_and_nonblank_fragments [of "codes ''Plants grow. Water flows. ''"]
      statistics_count_tokens_and_nonblank_fragments [of "codes ''one'' @ [160] @ codes ''two three''"]
      statistics_count_tokens_and_nonblank_fragments [of "codes ''a.'' @ [160]"]
    by simp
qed

section \<open>The concept extractor: proofs\<close>

lemma split_run_tokens:
  "(\<forall>c\<in>set cur. \<not> is_whitespace c) \<Longrightarrow> \<forall>w\<in>set (split_run cur s). token w"
proof (induction s arbitrary: cur)
  case Nil
  then show ?case by (simp add: token_def)
next
  case (Cons c cs)
  show ?case
  proof (cases "is_whitespace c")
    case True
    have e: "\<forall>w\<in>set (split_run [] cs). token w" by (rule Cons.IH) simp
    show ?thesis
    proof (cases "cur = []")
      case True
      with \<open>is_whitespace c\<close> e show ?thesis by simp
    next
      case False
      then have "token cur" using Cons.prems by (simp add: token_def)
      with False \<open>is_whitespace c\<close> e show ?thesis by simp
    qed
  next
    case False
    have "\<forall>x\<in>set (cur @ [c]). \<not> is_whitespace x" using False Cons.prems by simp
    then have "\<forall>w\<in>set (split_run (cur @ [c]) cs). token w" by (rule Cons.IH)
    with False show ?thesis by simp
  qed
qed

lemma words_of_tokens: "w \<in> set (words_of U text) \<Longrightarrow> token w"
  using split_run_tokens [of "[]" "sub_punct U text"] by (simp add: words_of_def split_ws_def)

lemma split_run_blank: "\<forall>c\<in>set s. is_whitespace c \<Longrightarrow> split_run [] s = []"
  by (induction s) simp_all

lemma words_of_blank: "\<forall>c\<in>set text. is_whitespace c \<Longrightarrow> words_of U text = []"
  by (simp add: words_of_def split_ws_def split_run_blank sub_punct_def)

lemma capitalized_loop_eq:
  "capitalized_loop U words concepts =
     concepts @ map (lower U) (filter (\<lambda>w. capitalize U w = w \<and> length w > 3) words)"
  by (induction words arbitrary: concepts) simp_all

lemma freq_loop_eq: "freq_loop U words tab = foldl count_word tab (counted_words U words)"
  by (induction words arbitrary: tab) (simp_all add: counted_words_def Let_def)

lemma count_word_keys: "fst ` set (count_word tab k) = insert k (fst ` set tab)"
  by (induction tab k rule: count_word.induct) auto

lemma count_word_distinct: "distinct (map fst tab) \<Longrightarrow> distinct (map fst (count_word tab k))"
proof (induction tab k rule: count_word.induct)
  case (1 w)
  then show ?case by simp
next
  case (2 k n kvs w)
  show ?case
  proof (cases "k = w")
    case True
    with 2 show ?thesis by simp
  next
    case False
    have "fst ` set (count_word kvs w) = insert w (fst ` set kvs)" by (rule count_word_keys)
    with False 2 show ?thesis by simp
  qed
qed

lemma count_word_lookup:
  "map_of (count_word tab k) j =
     (if j = k then Some (case map_of tab k of None \<Rightarrow> 1 | Some n \<Rightarrow> n + 1) else map_of tab j)"
proof (induction tab k rule: count_word.induct)
  case (1 w)
  then show ?case by simp
next
  case (2 k n kvs w)
  show ?case
  proof (cases "k = w")
    case True
    then show ?thesis by simp
  next
    case False
    from 2 [OF False] False show ?thesis by (cases "j = w") simp_all
  qed
qed

lemma tallied_step: "tallied tab seen \<Longrightarrow> tallied (count_word tab k) (seen @ [k])"
proof -
  assume t: "tallied tab seen"
  then have d: "distinct (map fst (count_word tab k))"
    by (simp add: tallied_def count_word_distinct)
  have "map_of (count_word tab k) j =
      (if j \<in> set (seen @ [k]) then Some (count_list (seen @ [k]) j) else None)" for j
  proof (cases "j = k")
    case True
    show ?thesis
    proof (cases "k \<in> set seen")
      case True
      with t \<open>j = k\<close> show ?thesis by (simp add: tallied_def count_word_lookup)
    next
      case False
      with t \<open>j = k\<close> show ?thesis by (simp add: tallied_def count_word_lookup)
    qed
  next
    case False
    with t show ?thesis by (simp add: tallied_def count_word_lookup)
  qed
  with d show ?thesis by (simp add: tallied_def)
qed

lemma tallied_foldl: "tallied tab seen \<Longrightarrow> tallied (foldl count_word tab ks) (seen @ ks)"
proof (induction ks arbitrary: tab seen)
  case Nil
  then show ?case by simp
next
  case (Cons k ks)
  from Cons.IH [OF tallied_step [OF Cons.prems, of k]] show ?case by simp
qed

lemma tallied_table: "tallied (foldl count_word [] ks) ks"
proof -
  have "tallied [] []" by (simp add: tallied_def)
  from tallied_foldl [OF this, of ks] show ?thesis by simp
qed

lemma tallied_entry:
  assumes "tallied tab seen" and "(k, n) \<in> set tab"
  shows "k \<in> set seen \<and> n = count_list seen k"
proof -
  from assms(1) have "distinct (map fst tab)" by (simp add: tallied_def)
  from map_of_is_SomeI [OF this assms(2)] have "map_of tab k = Some n" .
  moreover from assms(1) have
    "map_of tab k = (if k \<in> set seen then Some (count_list seen k) else None)"
    by (simp add: tallied_def)
  ultimately show ?thesis by (cases "k \<in> set seen") simp_all
qed

lemma freq_loop_entry:
  "(k, n) \<in> set (freq_loop U words []) \<Longrightarrow>
     k \<in> set (counted_words U words) \<and> n = count_list (counted_words U words) k"
  using tallied_entry [OF tallied_table] by (simp add: freq_loop_eq)

lemma token_lower: "lower_keeps_tokens U \<Longrightarrow> token w \<Longrightarrow> token (lower U w)"
  by (simp add: lower_keeps_tokens_def)

lemma text_strip_token: "token w \<Longrightarrow> text_strip w = w"
proof -
  assume t: "token w"
  then have a: "dropWhile is_whitespace w = w" by (cases w) (simp_all add: token_def)
  from t have "token (rev w)" by (simp add: token_def)
  then have "dropWhile is_whitespace (rev w) = rev w"
    by (cases "rev w") (simp_all add: token_def)
  with a show ?thesis by (simp add: text_strip_def)
qed

lemma counted_words_tokens:
  assumes "lower_keeps_tokens U" and "\<forall>w\<in>set words. token w"
  shows "counted_words U words =
           filter (\<lambda>cw. length cw > 4 \<and> isalpha U cw) (map (lower U) words)"
proof -
  have "map (\<lambda>w. text_strip (lower U w)) words = map (lower U) words"
  proof (rule map_cong [OF refl])
    fix w assume "w \<in> set words"
    with assms have "token (lower U w)" by (simp add: token_lower)
    then show "text_strip (lower U w) = lower U w" by (rule text_strip_token)
  qed
  then show ?thesis by (simp only: counted_words_def)
qed

lemma count_list_filter:
  "count_list (filter P xs) x = (if P x then count_list xs x else 0)"
  by (induction xs) simp_all

lemma frequent_words_subset: "set (frequent_words tab) \<subseteq> set tab"
proof -
  have "set (take 10 (sort_key (\<lambda>x. - int (snd x)) tab)) \<subseteq> set (sort_key (\<lambda>x. - int (snd x)) tab)"
    by (rule set_take_subset)
  then show ?thesis by (simp add: frequent_words_def)
qed

lemma top_of_sorted:
  assumes "x \<in> set (take m (sort_key f xs))"
  shows "card {y \<in> set xs. f y < f x} < m"
proof -
  define ys where "ys = sort_key f xs"
  have s: "sorted (map f ys)" by (simp add: ys_def)
  from assms obtain i where i: "i < m" "i < length ys" "x = ys ! i"
    unfolding ys_def [symmetric] by (auto simp add: in_set_conv_nth)
  have "{y \<in> set ys. f y < f x} \<subseteq> (\<lambda>j. ys ! j) ` {..<i}"
  proof
    fix y assume "y \<in> {y \<in> set ys. f y < f x}"
    then obtain j where j: "j < length ys" "y = ys ! j" "f y < f x"
      by (auto simp add: in_set_conv_nth)
    have "j < i"
    proof (rule ccontr)
      assume "\<not> j < i"
      then have "i \<le> j" by simp
      with s j(1) have "map f ys ! i \<le> map f ys ! j"
        by (simp add: sorted_iff_nth_mono)
      with i j show False by simp
    qed
    with j(2) show "y \<in> (\<lambda>j. ys ! j) ` {..<i}" by blast
  qed
  then have "card {y \<in> set ys. f y < f x} \<le> card ((\<lambda>j. ys ! j) ` {..<i})"
    by (simp add: card_mono)
  also have "\<dots> \<le> card {..<i}" by (rule card_image_le) simp
  finally have "card {y \<in> set ys. f y < f x} \<le> i" by simp
  with i(1) show ?thesis by (simp add: ys_def)
qed

lemma frequent_words_top:
  assumes "(k, n) \<in> set (frequent_words tab)"
  shows "card {p \<in> set tab. n < snd p} < 10"
proof -
  from assms have "(k, n) \<in> set (take 10 (sort_key (\<lambda>x. - int (snd x)) tab))"
    by (simp add: frequent_words_def)
  from top_of_sorted [OF this] show ?thesis by simp
qed

lemma concepts_split:
  "concepts_before_dedup U text = capitalized_concepts U text @ frequent_concepts U text"
  by (simp add: concepts_before_dedup_def capitalized_concepts_def frequent_concepts_def
      words_of_def Let_def)

lemma capitalized_concept:
  assumes "e \<in> set (capitalized_concepts U text)"
  shows "\<exists>w\<in>set (words_of U text). e = lower U w \<and> capitalize U w = w \<and> length w > 3"
  using assms by (auto simp add: capitalized_concepts_def capitalized_loop_eq)

lemma frequent_concept:
  assumes "lower_keeps_tokens U" and "e \<in> set (frequent_concepts U text)"
  shows "\<exists>w\<in>set (words_of U text). e = lower U w \<and> isalpha U e \<and> length e > 4
           \<and> count_list (map (lower U) (words_of U text)) e > 1
           \<and> e \<in> fst ` set (frequent_words (freq_loop U (words_of U text) []))
           \<and> card {p \<in> set (freq_loop U (words_of U text) []).
                     count_list (map (lower U) (words_of U text)) e < snd p} < 10"
proof -
  define words where "words = words_of U text"
  define tab where "tab = freq_loop U words []"
  have tok: "\<forall>w\<in>set words. token w" by (simp add: words_def words_of_tokens)
  from assms(2) obtain n where n: "(e, n) \<in> set (frequent_words tab)" "1 < n"
    by (auto simp add: frequent_concepts_def tab_def words_def)
  from n(1) frequent_words_subset have "(e, n) \<in> set tab" by blast
  then have c: "e \<in> set (counted_words U words)" "n = count_list (counted_words U words) e"
    using freq_loop_entry [of e n U words] by (simp_all add: tab_def)
  have cw: "counted_words U words =
      filter (\<lambda>cw. length cw > 4 \<and> isalpha U cw) (map (lower U) words)"
    using assms(1) tok by (rule counted_words_tokens)
  from c(1) cw obtain w where w: "w \<in> set words" "e = lower U w" "length e > 4" "isalpha U e"
    by auto
  from c(2) cw w(3,4) have cnt: "n = count_list (map (lower U) words) e"
    by (simp add: count_list_filter)
  from n(1) have top: "card {p \<in> set tab. n < snd p} < 10" by (rule frequent_words_top)
  from n(1) have mem: "e \<in> fst ` set (frequent_words tab)" by force
  from w n(2) cnt top mem show ?thesis
    unfolding words_def tab_def by blast
qed

lemma concept_token:
  assumes "lower_keeps_tokens U" and "e \<in> set (concepts_before_dedup U text)"
  shows "token e"
proof -
  from assms(2) have
    "e \<in> set (capitalized_concepts U text) \<or> e \<in> set (frequent_concepts U text)"
    by (simp add: concepts_split)
  then obtain w where "w \<in> set (words_of U text)" "e = lower U w"
    using capitalized_concept frequent_concept [OF assms(1)] by blast
  with assms(1) show ?thesis by (simp add: words_of_tokens token_lower)
qed

lemma concepts_blank:
  "\<forall>c\<in>set text. is_whitespace c \<Longrightarrow> concepts_before_dedup U text = []"
  by (simp add: concepts_before_dedup_def Let_def words_of_blank [unfolded words_of_def]
      frequent_words_def)

lemma set_order_facts:
  assumes "py_set_order set_list"
  shows "distinct (set_list xs)" and "set (set_list xs) = set xs"
  using assms by (simp_all add: py_set_order_def)

text \<open>
  Claim C3, as amended. For every text, every iteration order of the set and all
  tables under which lower-casing a token gives a token, the result has at most 8
  entries, all different. No entry is empty or holds whitespace, and each is the
  lower-cased form of a token that either is left unchanged by \<open>capitalize\<close> and is
  longer than 3, or whose lower-cased form is alphabetic, longer than 4, occurs
  more than once among the lower-cased tokens and is among the first ten of the
  words ranked by falling count, so that fewer than ten words have a greater
  count. A text of whitespace only gives the empty list.
\<close>

theorem extract_entries:
  assumes "py_set_order set_list" and "lower_keeps_tokens U"
  shows "length (extract_key_concepts U set_list text) \<le> 8
    \<and> distinct (extract_key_concepts U set_list text)
    \<and> (\<forall>e\<in>set (extract_key_concepts U set_list text).
          e \<noteq> [] \<and> (\<forall>c\<in>set e. \<not> is_whitespace c)
          \<and> (\<exists>w\<in>set (words_of U text). e = lower U w
               \<and> ((capitalize U w = w \<and> length w > 3)
                  \<or> (isalpha U e \<and> length e > 4
                     \<and> count_list (map (lower U) (words_of U text)) e > 1
                     \<and> e \<in> fst ` set (frequent_words (freq_loop U (words_of U text) []))
                     \<and> card {p \<in> set (freq_loop U (words_of U text) []).
                               count_list (map (lower U) (words_of U text)) e < snd p} < 10))))
    \<and> ((\<forall>c\<in>set text. is_whitespace c) \<longrightarrow> extract_key_concepts U set_list text = [])"
proof -
  have l: "length (extract_key_concepts U set_list text) \<le> 8"
    by (simp add: extract_key_concepts_def)
  have d: "distinct (extract_key_concepts U set_list text)"
    using set_order_facts(1) [OF assms(1)] by (simp add: extract_key_concepts_def)
  have sub: "set (extract_key_concepts U set_list text) \<subseteq> set (concepts_before_dedup U text)"
    using set_order_facts(2) [OF assms(1), of "concepts_before_dedup U text"]
      set_take_subset [of 8 "set_list (concepts_before_dedup U text)"]
    by (simp add: extract_key_concepts_def)
  have e: "e \<noteq> [] \<and> (\<forall>c\<in>set e. \<not> is_whitespace c)
          \<and> (\<exists>w\<in>set (words_of U text). e = lower U w
               \<and> ((capitalize U w = w \<and> length w > 3)
                  \<or> (isalpha U e \<and> length e > 4
                     \<and> count_list (map (lower U) (words_of U text)) e > 1
                     \<and> e \<in> fst ` set (frequent_words (freq_loop U (words_of U text) []))
                     \<and> card {p \<in> set (freq_loop U (words_of U text) []).
                               count_list (map (lower U) (words_of U text)) e < snd p} < 10)))"
    if "e \<in> set (extract_key_concepts U set_list text)" for e
  proof -
    from that sub have m: "e \<in> set (concepts_before_dedup U text)" by blast
    then have t: "e \<noteq> [] \<and> (\<forall>c\<in>set e. \<not> is_whitespace c)"
      using concept_token [OF assms(2), of e "text"] by (simp add: token_def)
    from m have "e \<in> set (capitalized_concepts U text) \<or> e \<in> set (frequent_concepts U text)"
      by (simp add: concepts_split)
    then show ?thesis
    proof
      assume "e \<in> set (capitalized_concepts U text)"
      from capitalized_concept [OF this] t show ?thesis by blast
    next
      assume "e \<in> set (frequent_concepts U text)"
      from frequent_concept [OF assms(2) this] t show ?thesis by blast
    qed
  qed
  have b: "extract_key_concepts U set_list text = []" if "\<forall>c\<in>set text. is_whitespace c"
  proof -
    from that have "concepts_before_dedup U text = []" by (rule concepts_blank)
    with set_order_facts(2) [OF assms(1), of "[]"] show ?thesis
      by (simp add: extract_key_concepts_def)
  qed
  from l d e b show ?thesis by blast
qed

lemmas extract_simps = extract_key_concepts_def concepts_before_dedup_def Let_def sub_punct_def
  split_ws_def split_on_def frequent_words_def text_strip_def words_of_def
  capitalized_concepts_def frequent_concepts_def is_word_def is_whitespace_def codes_def

lemmas ascii_simps = ascii_tables_def ascii_upper_def ascii_lower_def ascii_isalnum_def
  ascii_to_lower_def ascii_isalpha_def

lemma set_order_remdups: "py_set_order remdups"
  by (simp add: py_set_order_def)

lemma set_order_rev_remdups: "py_set_order (rev \<circ> remdups)"
  by (simp add: py_set_order_def)

lemma ascii_lower_keeps_tokens: "lower_keeps_tokens ascii_tables"
proof -
  have "\<not> is_whitespace (c + 32)" if "ascii_upper c" for c
    using that by (simp add: ascii_upper_def is_whitespace_def)
  then show ?thesis
    by (auto simp add: lower_keeps_tokens_def token_def ascii_tables_def ascii_to_lower_def)
qed

theorem extract_entries_witness:
  "py_set_order remdups \<and> lower_keeps_tokens ascii_tables
   \<and> extract_key_concepts ascii_tables remdups (codes ''Plants need water. Green plants store water.'')
       = [codes ''green'', codes ''plants'', codes ''water'']
   \<and> length (extract_key_concepts ascii_tables remdups
         (codes ''Plants need water. Green plants store water.'')) \<le> 8
   \<and> codes ''water'' \<in> set (extract_key_concepts ascii_tables remdups
         (codes ''Plants need water. Green plants store water.''))
   \<and> (\<exists>w\<in>set (words_of ascii_tables (codes ''Plants need water. Green plants store water.'')).
         codes ''water'' = lower ascii_tables w
         \<and> ((capitalize ascii_tables w = w \<and> length w > 3)
            \<or> (isalpha ascii_tables (codes ''water'') \<and> length (codes ''water'') > 4
               \<and> count_list (map (lower ascii_tables)
                     (words_of ascii_tables (codes ''Plants need water. Green plants store water.'')))
                   (codes ''water'') > 1)))
   \<and> set [32, 160, 8195] = {32, 160, 8195 :: nat}
   \<and> is_whitespace 32 \<and> is_whitespace 160 \<and> is_whitespace 8195
   \<and> extract_key_concepts ascii_tables remdups [32, 160, 8195] = []"
proof -
  define T where "T = codes ''Plants need water. Green plants store water.''"
  have v: "extract_key_concepts ascii_tables remdups T
      = [codes ''green'', codes ''plants'', codes ''water'']"
    unfolding T_def by (simp add: extract_simps ascii_simps)
  note t = extract_entries [OF set_order_remdups ascii_lower_keeps_tokens, of T]
  from t have l: "length (extract_key_concepts ascii_tables remdups T) \<le> 8" by blast
  have m: "codes ''water'' \<in> set (extract_key_concepts ascii_tables remdups T)" by (simp add: v)
  with t have f: "\<exists>w\<in>set (words_of ascii_tables T). codes ''water'' = lower ascii_tables w
               \<and> ((capitalize ascii_tables w = w \<and> length w > 3)
                  \<or> (isalpha ascii_tables (codes ''water'') \<and> length (codes ''water'') > 4
                     \<and> count_list (map (lower ascii_tables) (words_of ascii_tables T))
                          (codes ''water'') > 1))"
    by blast
  have s: "\<forall>c\<in>set [32, 160, 8195]. is_whitespace c" by (simp add: is_whitespace_def)
  with extract_entries [OF set_order_remdups ascii_lower_keeps_tokens, of "[32, 160, 8195]"]
  have b: "extract_key_concepts ascii_tables remdups [32, 160, 8195] = []" by blast
  have s': "set [32, 160, 8195] = {32, 160, 8195 :: nat}
      \<and> is_whitespace 32 \<and> is_whitespace 160 \<and> is_whitespace 8195"
    by (simp add: is_whitespace_def)
  from set_order_remdups ascii_lower_keeps_tokens v l m f s' b show ?thesis
    unfolding T_def by blast
qed

text \<open>
  The claim as it was worded fails in two places. A token need not occur more than
  once: in \<open>aPPLE apple\<close> each token occurs once and neither is capitalised, yet
  \<open>apple\<close> is an entry, because the count is of the lower-cased forms. And the test
  is \<open>capitalize\<close>, not \<open>title\<close>: the token \<open>Abc1d\<close> is left unchanged by \<open>capitalize\<close>
  and gives the entry \<open>abc1d\<close>, while its title-cased form is \<open>Abc1D\<close> and it is not
  alphabetic.
\<close>

theorem extract_claim_counterexample:
  "py_set_order remdups
   \<and> extract_key_concepts ascii_tables remdups (codes ''aPPLE apple'') = [codes ''apple'']
   \<and> words_of ascii_tables (codes ''aPPLE apple'') = [codes ''aPPLE'', codes ''apple'']
   \<and> count_list [codes ''aPPLE'', codes ''apple''] (codes ''aPPLE'') = 1
   \<and> count_list [codes ''aPPLE'', codes ''apple''] (codes ''apple'') = 1
   \<and> capitalize ascii_tables (codes ''aPPLE'') = codes ''Apple''
   \<and> capitalize ascii_tables (codes ''apple'') = codes ''Apple''
   \<and> codes ''Apple'' \<noteq> codes ''aPPLE'' \<and> codes ''Apple'' \<noteq> codes ''apple''
   \<and> title ''aPPLE'' = ''Apple'' \<and> title ''apple'' = ''Apple''
   \<and> extract_key_concepts ascii_tables remdups (codes ''Abc1d'') = [codes ''abc1d'']
   \<and> words_of ascii_tables (codes ''Abc1d'') = [codes ''Abc1d'']
   \<and> lower ascii_tables (codes ''Abc1d'') = codes ''abc1d''
   \<and> capitalize ascii_tables (codes ''Abc1d'') = codes ''Abc1d''
   \<and> title ''Abc1d'' = ''Abc1D''
   \<and> title ''Abc1d'' \<noteq> ''Abc1d''
   \<and> \<not> isalpha ascii_tables (codes ''Abc1d'')"
proof -
  have a1: "extract_key_concepts ascii_tables remdups (codes ''aPPLE apple'') = [codes ''apple'']"
    by (simp add: extract_simps ascii_simps)
  have a2: "words_of ascii_tables (codes ''aPPLE apple'') = [codes ''aPPLE'', codes ''apple'']"
    by (simp add: extract_simps ascii_simps)
  have a3: "count_list [codes ''aPPLE'', codes ''apple''] (codes ''aPPLE'') = 1
     \<and> count_list [codes ''aPPLE'', codes ''apple''] (codes ''apple'') = 1"
    by (simp add: codes_def)
  have a4: "capitalize ascii_tables (codes ''aPPLE'') = codes ''Apple''
     \<and> capitalize ascii_tables (codes ''apple'') = codes ''Apple''"
    by (simp add: codes_def ascii_simps)
  have a5: "codes ''Apple'' \<noteq> codes ''aPPLE'' \<and> codes ''Apple'' \<noteq> codes ''apple''"
    by (simp add: codes_def)
  have a6: "title ''aPPLE'' = ''Apple'' \<and> title ''apple'' = ''Apple''"
    by (simp add: title_def char_simps)
  have v: "extract_key_concepts ascii_tables remdups (codes ''Abc1d'') = [codes ''abc1d'']"
    by (simp add: extract_simps ascii_simps)
  have w: "words_of ascii_tables (codes ''Abc1d'') = [codes ''Abc1d'']"
    by (simp add: extract_simps ascii_simps)
  have l: "lower ascii_tables (codes ''Abc1d'') = codes ''abc1d''"
    by (simp add: codes_def ascii_simps)
  have c: "capitalize ascii_tables (codes ''Abc1d'') = codes ''Abc1d''"
    by (simp add: codes_def ascii_simps)
  have t: "title ''Abc1d'' = ''Abc1D''" by (simp add: title_def char_simps)
  then have t': "title ''Abc1d'' \<noteq> ''Abc1d''" by simp
  have a: "\<not> isalpha ascii_tables (codes ''Abc1d'')" by (simp add: codes_def ascii_simps)
  from set_order_remdups a1 a2 a3 a4 a5 a6 v w l c t t' a show ?thesis by blast
qed

text \<open>
  The result need not be in insertion order. With the iteration order that
  enumerates a set against the order of insertion, the frequent word \<open>gamma\<close> comes
  before the capitalised word \<open>alpha\<close>, which was inserted first.
\<close>

theorem extract_order_counterexample:
  "py_set_order (rev \<circ> remdups)
   \<and> capitalized_concepts ascii_tables (codes ''Alpha gamma gamma'') = [codes ''alpha'']
   \<and> frequent_concepts ascii_tables (codes ''Alpha gamma gamma'') = [codes ''gamma'']
   \<and> take 8 (insertion_order (concepts_before_dedup ascii_tables (codes ''Alpha gamma gamma'')))
       = [codes ''alpha'', codes ''gamma'']
   \<and> extract_key_concepts ascii_tables (rev \<circ> remdups) (codes ''Alpha gamma gamma'')
       = [codes ''gamma'', codes ''alpha'']
   \<and> extract_key_concepts ascii_tables (rev \<circ> remdups) (codes ''Alpha gamma gamma'')
       \<noteq> take 8 (insertion_order (concepts_before_dedup ascii_tables (codes ''Alpha gamma gamma'')))"
proof -
  define T where "T = codes ''Alpha gamma gamma''"
  have c: "capitalized_concepts ascii_tables T = [codes ''alpha'']"
    unfolding T_def by (simp add: extract_simps ascii_simps)
  have f: "frequent_concepts ascii_tables T = [codes ''gamma'']"
    unfolding T_def by (simp add: extract_simps ascii_simps)
  have n: "codes ''alpha'' \<noteq> codes ''gamma''" by (simp add: codes_def)
  have i: "take 8 (insertion_order (concepts_before_dedup ascii_tables T))
      = [codes ''alpha'', codes ''gamma'']"
    using n by (simp add: concepts_split c f insertion_order_def)
  have e: "extract_key_concepts ascii_tables (rev \<circ> remdups) T = [codes ''gamma'', codes ''alpha'']"
    using n by (simp add: extract_key_concepts_def concepts_split c f)
  have "[codes ''gamma'', codes ''alpha''] \<noteq> [codes ''alpha'', codes ''gamma'']"
    using n by simp
  with set_order_rev_remdups c f i e show ?thesis unfolding T_def by simp
qed

text \<open>
  Claim C4, as amended. The list before the last line of the function holds the
  concepts of the capitalised pass first and those of the frequency pass after
  them. The result is the first 8 entries of an enumeration without repetition of
  the union of the two, in the iteration order of the set; it has as many entries
  as the union has elements, up to 8, and holds all of them when there are at
  most 8.
\<close>

theorem extract_enumerates_union:
  assumes "py_set_order set_list"
  shows "concepts_before_dedup U text = capitalized_concepts U text @ frequent_concepts U text
    \<and> (\<exists>ys. distinct ys
          \<and> set ys = set (capitalized_concepts U text) \<union> set (frequent_concepts U text)
          \<and> extract_key_concepts U set_list text = take 8 ys)
    \<and> length (extract_key_concepts U set_list text)
        = min 8 (card (set (capitalized_concepts U text) \<union> set (frequent_concepts U text)))
    \<and> (card (set (capitalized_concepts U text) \<union> set (frequent_concepts U text)) \<le> 8 \<longrightarrow>
          set (extract_key_concepts U set_list text)
            = set (capitalized_concepts U text) \<union> set (frequent_concepts U text))"
proof -
  define ys where "ys = set_list (concepts_before_dedup U text)"
  have d: "distinct ys" unfolding ys_def by (rule set_order_facts(1) [OF assms])
  have s: "set ys = set (capitalized_concepts U text) \<union> set (frequent_concepts U text)"
    unfolding ys_def by (simp add: set_order_facts(2) [OF assms] concepts_split)
  have e: "extract_key_concepts U set_list text = take 8 ys"
    by (simp add: extract_key_concepts_def ys_def)
  from d s have c:
    "length ys = card (set (capitalized_concepts U text) \<union> set (frequent_concepts U text))"
    using distinct_card [of ys] by simp
  have l: "length (extract_key_concepts U set_list text)
        = min 8 (card (set (capitalized_concepts U text) \<union> set (frequent_concepts U text)))"
    using c by (simp add: e min.commute)
  have a: "set (extract_key_concepts U set_list text)
            = set (capitalized_concepts U text) \<union> set (frequent_concepts U text)"
    if "card (set (capitalized_concepts U text) \<union> set (frequent_concepts U text)) \<le> 8"
    using that c s by (simp add: e)
  from d s e l a concepts_split [of U "text"] show ?thesis by blast
qed

theorem extract_enumerates_union_witness:
  "py_set_order (rev \<circ> remdups)
   \<and> concepts_before_dedup ascii_tables (codes ''Alpha gamma gamma'')
       = [codes ''alpha''] @ [codes ''gamma'']
   \<and> length (extract_key_concepts ascii_tables (rev \<circ> remdups) (codes ''Alpha gamma gamma'')) = 2
   \<and> card (set [codes ''alpha''] \<union> set [codes ''gamma'']) \<le> 8
   \<and> set (extract_key_concepts ascii_tables (rev \<circ> remdups) (codes ''Alpha gamma gamma''))
       = {codes ''alpha'', codes ''gamma''}"
proof -
  define T where "T = codes ''Alpha gamma gamma''"
  have c: "capitalized_concepts ascii_tables T = [codes ''alpha'']"
    unfolding T_def by (simp add: extract_simps ascii_simps)
  have f: "frequent_concepts ascii_tables T = [codes ''gamma'']"
    unfolding T_def by (simp add: extract_simps ascii_simps)
  have n: "codes ''alpha'' \<noteq> codes ''gamma''" by (simp add: codes_def)
  then have k: "card (set [codes ''alpha''] \<union> set [codes ''gamma'']) = 2" by simp
  from extract_enumerates_union [OF set_order_rev_remdups, of ascii_tables T]
  show ?thesis unfolding c f T_def [symmetric] using set_order_rev_remdups k by auto
qed

text \<open>
  Two iteration orders can give results with different members: of nine concepts
  each order keeps the eight that it enumerates first.
\<close>

theorem extract_membership_counterexample:
  "py_set_order remdups \<and> py_set_order (rev \<circ> remdups)
   \<and> extract_key_concepts ascii_tables remdups
         (codes ''Alpha Bravo Charlie Delta Echo Foxtrot Golf Hotel India'')
       = [codes ''alpha'', codes ''bravo'', codes ''charlie'', codes ''delta'', codes ''echo'',
          codes ''foxtrot'', codes ''golf'', codes ''hotel'']
   \<and> extract_key_concepts ascii_tables (rev \<circ> remdups)
         (codes ''Alpha Bravo Charlie Delta Echo Foxtrot Golf Hotel India'')
       = [codes ''india'', codes ''hotel'', codes ''golf'', codes ''foxtrot'', codes ''echo'',
          codes ''delta'', codes ''charlie'', codes ''bravo'']
   \<and> set (extract_key_concepts ascii_tables remdups
         (codes ''Alpha Bravo Charlie Delta Echo Foxtrot Golf Hotel India''))
       \<noteq> set (extract_key_concepts ascii_tables (rev \<circ> remdups)
         (codes ''Alpha Bravo Charlie Delta Echo Foxtrot Golf Hotel India''))"
proof -
  define T where "T = codes ''Alpha Bravo Charlie Delta Echo Foxtrot Golf Hotel India''"
  have a: "extract_key_concepts ascii_tables remdups T
       = [codes ''alpha'', codes ''bravo'', codes ''charlie'', codes ''delta'', codes ''echo'',
          codes ''foxtrot'', codes ''golf'', codes ''hotel'']"
    unfolding T_def by (simp add: extract_simps ascii_simps)
  have b: "extract_key_concepts ascii_tables (rev \<circ> remdups) T
       = [codes ''india'', codes ''hotel'', codes ''golf'', codes ''foxtrot'', codes ''echo'',
          codes ''delta'', codes ''charlie'', codes ''bravo'']"
    unfolding T_def by (simp add: extract_simps ascii_simps)
  have "codes ''india'' \<in> set (extract_key_concepts ascii_tables (rev \<circ> remdups) T)"
    by (simp add: b)
  moreover have "codes ''india'' \<notin> set (extract_key_concepts ascii_tables remdups T)"
    by (simp add: a codes_def)
  ultimately have "set (extract_key_concepts ascii_tables remdups T)
      \<noteq> set (extract_key_concepts ascii_tables (rev \<circ> remdups) T)"
    by blast
  with set_order_remdups set_order_rev_remdups a b show ?thesis unfolding T_def by blast
qed

text \<open>
  Claim C10, as amended. The extraction is a function of the text and of the
  iteration order of the set. For one text, the results under any two iteration
  orders have the same length and are drawn from the same concepts; when the text
  has at most 8 different concepts, they have the same members.
\<close>

theorem extract_membership:
  assumes "py_set_order order1" and "py_set_order order2"
  shows "length (extract_key_concepts U order1 text) = length (extract_key_concepts U order2 text)
    \<and> set (extract_key_concepts U order1 text) \<subseteq> set (concepts_before_dedup U text)
    \<and> set (extract_key_concepts U order2 text) \<subseteq> set (concepts_before_dedup U text)
    \<and> (card (set (concepts_before_dedup U text)) \<le> 8 \<longrightarrow>
          set (extract_key_concepts U order1 text) = set (extract_key_concepts U order2 text))"
proof -
  have len: "length (order (concepts_before_dedup U text)) = card (set (concepts_before_dedup U text))"
    if "py_set_order order" for order
    using distinct_card [OF set_order_facts(1) [OF that, of "concepts_before_dedup U text"]]
      set_order_facts(2) [OF that, of "concepts_before_dedup U text"] by simp
  have sub: "set (extract_key_concepts U order text) \<subseteq> set (concepts_before_dedup U text)"
    if "py_set_order order" for order
    using set_take_subset [of 8 "order (concepts_before_dedup U text)"]
      set_order_facts(2) [OF that, of "concepts_before_dedup U text"]
    by (simp add: extract_key_concepts_def)
  have all: "set (extract_key_concepts U order text) = set (concepts_before_dedup U text)"
    if "py_set_order order" and "card (set (concepts_before_dedup U text)) \<le> 8" for order
    using len [OF that(1)] that(2) set_order_facts(2) [OF that(1), of "concepts_before_dedup U text"]
    by (simp add: extract_key_concepts_def)
  have l: "length (extract_key_concepts U order1 text) = length (extract_key_concepts U order2 text)"
    using len [OF assms(1)] len [OF assms(2)] by (simp add: extract_key_concepts_def)
  from l sub [OF assms(1)] sub [OF assms(2)] all [OF assms(1)] all [OF assms(2)]
  show ?thesis by simp
qed

theorem extract_membership_witness:
  "py_set_order remdups \<and> py_set_order (rev \<circ> remdups)
   \<and> card (set (concepts_before_dedup ascii_tables (codes ''Alpha gamma gamma''))) = 2
   \<and> extract_key_concepts ascii_tables remdups (codes ''Alpha gamma gamma'')
       = [codes ''alpha'', codes ''gamma'']
   \<and> extract_key_concepts ascii_tables (rev \<circ> remdups) (codes ''Alpha gamma gamma'')
       = [codes ''gamma'', codes ''alpha'']
   \<and> set (extract_key_concepts ascii_tables remdups (codes ''Alpha gamma gamma''))
       = set (extract_key_concepts ascii_tables (rev \<circ> remdups) (codes ''Alpha gamma gamma''))"
proof -
  define T where "T = codes ''Alpha gamma gamma''"
  have c: "concepts_before_dedup ascii_tables T = [codes ''alpha'', codes ''gamma'']"
    unfolding T_def by (simp add: extract_simps ascii_simps)
  have n: "codes ''alpha'' \<noteq> codes ''gamma''" by (simp add: codes_def)
  then have k: "card (set (concepts_before_dedup ascii_tables T)) = 2" by (simp add: c)
  have a: "extract_key_concepts ascii_tables remdups T = [codes ''alpha'', codes ''gamma'']"
    using n by (simp add: extract_key_concepts_def c)
  have b: "extract_key_concepts ascii_tables (rev \<circ> remdups) T = [codes ''gamma'', codes ''alpha'']"
    using n by (simp add: extract_key_concepts_def c)
  from extract_membership [OF set_order_remdups set_order_rev_remdups, of ascii_tables T] k
  have "set (extract_key_concepts ascii_tables remdups T)
       = set (extract_key_concepts ascii_tables (rev \<circ> remdups) T)" by simp
  with set_order_remdups set_order_rev_remdups k a b show ?thesis unfolding T_def by blast
qed

end
